theory Spec2Isabelle
  imports Main "HOL-Library.Sublist"
begin

section \<open>JavaScript list and string primitives used by askService\<close>

text \<open>
  \<^verbatim>\<open>Array.prototype.slice(start)\<close> with one argument: a negative start counts from
  the end and is clamped at 0, a positive one is clamped at the length.
\<close>

definition slice_from :: "int \<Rightarrow> 'a list \<Rightarrow> 'a list" where
  "slice_from start xs =
     (let n = int (length xs);
          k = (if start < 0 then max (n + start) 0 else min start n)
      in drop (nat k) xs)"

text \<open>\<^verbatim>\<open>Array.prototype.join(sep)\<close> on an array of strings.\<close>

fun join :: "string \<Rightarrow> string list \<Rightarrow> string" where
  "join sep [] = []"
| "join sep [x] = x"
| "join sep (x # y # ys) = x @ sep @ join sep (y # ys)"

text \<open>
  Strings are \<^typ>\<open>string\<close>; a \<^typ>\<open>char\<close> stands for the code unit with the same
  number, so the model covers text in the range U+0000 to U+00FF.
  \<^verbatim>\<open>String.prototype.toLowerCase\<close> maps A to Z, and the capital letters U+00C0 to U+00DE
  other than the multiplication sign U+00D7, to the letter 32 places on.
\<close>

definition toLowerCase_char :: "char \<Rightarrow> char" where
  "toLowerCase_char c =
     (let n = (of_char c :: nat)
      in if (65 \<le> n \<and> n \<le> 90) \<or> (192 \<le> n \<and> n \<le> 222 \<and> n \<noteq> 215)
         then char_of (n + 32) else c)"

definition toLowerCase :: "string \<Rightarrow> string" where
  "toLowerCase s = map toLowerCase_char s"

text \<open>
  \<^verbatim>\<open>String.prototype.includes(k)\<close>: \<open>k\<close> occurs at some position of the string, tried
  from the left.
\<close>

fun includes_str :: "string \<Rightarrow> string \<Rightarrow> bool" where
  "includes_str [] k = (k = [])"
| "includes_str (c # cs) k = (prefix k (c # cs) \<or> includes_str cs k)"

text \<open>
  \<^verbatim>\<open>String.prototype.trim\<close> removes white space and line terminators at both ends:
  tab, line feed, vertical tab, form feed, carriage return, space and the
  no-break space U+00A0.
\<close>

definition isWhiteSpace :: "char \<Rightarrow> bool" where
  "isWhiteSpace c = ((of_char c :: nat) \<in> set [9, 10, 11, 12, 13, 32, 160])"

definition trim :: "string \<Rightarrow> string" where
  "trim s = rev (dropWhile isWhiteSpace (rev (dropWhile isWhiteSpace s)))"

text \<open>\<^verbatim>\<open>chunk.split('\n')\<close>: the pieces between line feeds; the empty string has one piece.\<close>

fun split_lines :: "string \<Rightarrow> string list" where
  "split_lines [] = [[]]"
| "split_lines (c # cs) =
     (if c = CHR 0x0A then [] # split_lines cs
      else (case split_lines cs of
              [] \<Rightarrow> [[c]]
            | l # ls \<Rightarrow> (c # l) # ls))"

definition startsWith :: "string \<Rightarrow> string \<Rightarrow> bool" where
  "startsWith s p = (take (length p) s = p)"

definition substring :: "nat \<Rightarrow> string \<Rightarrow> string" where
  "substring n s = drop n s"

section \<open>Screenshot queue (module state of askService)\<close>

record screenshot =
  base64 :: "string option"
  width :: "int option"
  height :: "int option"
  timestamp :: "nat option"

definition MAX_SCREENSHOT_QUEUE_SIZE :: nat where
  "MAX_SCREENSHOT_QUEUE_SIZE = 10"

text \<open>
  The outcome of the desktop capture inside \<^verbatim>\<open>captureManualScreenshotToQueue\<close>: the
  capture throws, it returns no screen source, or the first source yields a JPEG
  (base64 text, width, height).
\<close>

datatype manual_capture =
    CaptureThrows string
  | NoSources
  | FirstSource string int int

type_synonym queue_reply = "string + nat"

text \<open>
  \<^verbatim>\<open>addScreenshotToQueue(screenshot)\<close>: push the entry stamped with \<^verbatim>\<open>Date.now()\<close>,
  then cut the array to its last ten elements when it has grown beyond ten. The reply
  \<open>Inr n\<close> is \<^verbatim>\<open>{ success: true, queueSize: n }\<close>.
\<close>

definition addScreenshotToQueue ::
  "nat \<Rightarrow> screenshot \<Rightarrow> screenshot list \<Rightarrow> queue_reply \<times> screenshot list" where
  "addScreenshotToQueue now shot screenshotQueue =
     (let pushed = screenshotQueue @ [shot\<lparr>timestamp := Some now\<rparr>];
          limited = (if length pushed > MAX_SCREENSHOT_QUEUE_SIZE
                     then slice_from (- int MAX_SCREENSHOT_QUEUE_SIZE) pushed
                     else pushed)
      in (Inr (length limited), limited))"

text \<open>
  \<^verbatim>\<open>captureManualScreenshotToQueue()\<close>: a failed capture leaves the queue as it is and
  replies \<^verbatim>\<open>{ success: false, error }\<close> (\<open>Inl\<close>); a successful one pushes the new entry
  and applies the same limit.
\<close>

definition captureManualScreenshotToQueue ::
  "nat \<Rightarrow> manual_capture \<Rightarrow> screenshot list \<Rightarrow> queue_reply \<times> screenshot list" where
  "captureManualScreenshotToQueue now cap screenshotQueue =
     (case cap of
        CaptureThrows msg \<Rightarrow> (Inl msg, screenshotQueue)
      | NoSources \<Rightarrow> (Inl ''No screen sources available'', screenshotQueue)
      | FirstSource b w h \<Rightarrow>
          (let entry = \<lparr>base64 = Some b, width = Some w, height = Some h,
                         timestamp = Some now\<rparr>;
               pushed = screenshotQueue @ [entry];
               limited = (if length pushed > MAX_SCREENSHOT_QUEUE_SIZE
                          then slice_from (- int MAX_SCREENSHOT_QUEUE_SIZE) pushed
                          else pushed)
           in (Inr (length limited), limited)))"

definition getAndClearScreenshotQueue ::
  "screenshot list \<Rightarrow> screenshot list \<times> screenshot list" where
  "getAndClearScreenshotQueue screenshotQueue =
     (let queue = screenshotQueue in (queue, []))"

definition hasQueuedScreenshots :: "screenshot list \<Rightarrow> bool" where
  "hasQueuedScreenshots screenshotQueue = (length screenshotQueue > 0)"

definition clearScreenshotQueue :: "screenshot list \<Rightarrow> screenshot list" where
  "clearScreenshotQueue screenshotQueue = []"

definition getScreenshotQueueSize :: "screenshot list \<Rightarrow> nat" where
  "getScreenshotQueueSize screenshotQueue = length screenshotQueue"

subsection \<open>Sequences of enqueue calls\<close>

text \<open>
  A call of one of the two producers, with the clock value it reads: the renderer's
  \<^verbatim>\<open>addScreenshotToQueue\<close> or the shortcut's \<^verbatim>\<open>captureManualScreenshotToQueue\<close>.
\<close>

datatype enqueue_call =
    FromRenderer nat screenshot
  | FromShortcut nat manual_capture

fun run_enqueue :: "enqueue_call \<Rightarrow> screenshot list \<Rightarrow> screenshot list" where
  "run_enqueue (FromRenderer now shot) q = snd (addScreenshotToQueue now shot q)"
| "run_enqueue (FromShortcut now cap) q = snd (captureManualScreenshotToQueue now cap q)"

fun run_enqueues :: "enqueue_call list \<Rightarrow> screenshot list \<Rightarrow> screenshot list" where
  "run_enqueues [] q = q"
| "run_enqueues (c # cs) q = run_enqueues cs (run_enqueue c q)"

text \<open>
  The entries a sequence of calls hands to the queue, in call order (a failed manual
  capture hands over nothing), and the last \<open>n\<close> elements of a list.
\<close>

fun enqueued_entries :: "enqueue_call list \<Rightarrow> screenshot list" where
  "enqueued_entries [] = []"
| "enqueued_entries (FromRenderer now shot # cs) =
     shot\<lparr>timestamp := Some now\<rparr> # enqueued_entries cs"
| "enqueued_entries (FromShortcut now (FirstSource b w h) # cs) =
     \<lparr>base64 = Some b, width = Some w, height = Some h, timestamp = Some now\<rparr>
       # enqueued_entries cs"
| "enqueued_entries (FromShortcut now _ # cs) = enqueued_entries cs"

definition most_recent :: "nat \<Rightarrow> 'a list \<Rightarrow> 'a list" where
  "most_recent n xs = drop (length xs - n) xs"

section \<open>Error classification and prompt context (AskService)\<close>

text \<open>A thrown value, seen through its \<^verbatim>\<open>message\<close> property, which may be absent.\<close>

datatype js_error = Error (message: "string option")

text \<open>
  \<^verbatim>\<open>_isMultimodalError(error)\<close>: the message in lower case, the empty string when
  there is none, is searched for eight markers.
\<close>

definition isMultimodalError :: "js_error \<Rightarrow> bool" where
  "isMultimodalError error =
     (let errorMessage = (case message error of
                            None \<Rightarrow> []
                          | Some m \<Rightarrow> toLowerCase m)
      in includes_str errorMessage ''vision'' \<or>
         includes_str errorMessage ''image'' \<or>
         includes_str errorMessage ''multimodal'' \<or>
         includes_str errorMessage ''unsupported'' \<or>
         includes_str errorMessage ''image_url'' \<or>
         includes_str errorMessage ''400'' \<or>
         includes_str errorMessage ''invalid'' \<or>
         includes_str errorMessage ''not supported'')"

text \<open>
  \<^verbatim>\<open>_formatConversationForPrompt(conversationTexts)\<close>; \<open>None\<close> is a missing
  (null or undefined) argument.
\<close>

definition formatConversationForPrompt :: "string list option \<Rightarrow> string" where
  "formatConversationForPrompt conversationTexts =
     (case conversationTexts of
        None \<Rightarrow> ''No conversation history available.''
      | Some texts \<Rightarrow>
          if length texts = 0 then ''No conversation history available.''
          else join [CHR 0x0A] (slice_from (- 30) texts))"

section \<open>Stream decoding (AskService._processStream)\<close>

text \<open>
  The value \<^verbatim>\<open>JSON.parse\<close> returns. A number is kept as what the decoder can observe
  of it: whether it is truthy (neither 0 nor -0) and its \<^verbatim>\<open>String(n)\<close> rendering. An
  object lists its own properties, each name once.
\<close>

datatype json =
    JNull
  | JBool bool
  | JNum bool string
  | JStr string
  | JArr "json list"
  | JObj "(string \<times> json) list"

fun truthy :: "json \<Rightarrow> bool" where
  "truthy JNull = False"
| "truthy (JBool b) = b"
| "truthy (JNum nonzero shown) = nonzero"
| "truthy (JStr s) = (s \<noteq> [])"
| "truthy (JArr xs) = True"
| "truthy (JObj kvs) = True"

text \<open>
  Reading one of the properties \<^verbatim>\<open>choices\<close>, \<^verbatim>\<open>delta\<close>, \<^verbatim>\<open>content\<close> of a value that is
  neither null nor undefined: only an object can have it; \<open>None\<close> is undefined.
\<close>

fun getProp :: "json \<Rightarrow> string \<Rightarrow> json option" where
  "getProp (JObj kvs) name = map_of kvs name"
| "getProp _ name = None"

text \<open>\<^verbatim>\<open>x[0]\<close> on a value that is neither null nor undefined.\<close>

fun firstElement :: "json \<Rightarrow> json option" where
  "firstElement (JArr xs) = (case xs of [] \<Rightarrow> None | x # _ \<Rightarrow> Some x)"
| "firstElement (JObj kvs) = map_of kvs ''0''"
| "firstElement (JStr s) = (case s of [] \<Rightarrow> None | c # _ \<Rightarrow> Some (JStr [c]))"
| "firstElement _ = None"

text \<open>\<^verbatim>\<open>x?.name\<close>: undefined when \<open>x\<close> is null or undefined.\<close>

definition optionalProp :: "json option \<Rightarrow> string \<Rightarrow> json option" where
  "optionalProp x name =
     (case x of
        None \<Rightarrow> None
      | Some JNull \<Rightarrow> None
      | Some v \<Rightarrow> getProp v name)"

text \<open>
  \<^verbatim>\<open>json.choices[0]?.delta?.content || ''\<close>. The result \<open>None\<close> is a TypeError: \<open>json\<close>
  is null, or \<^verbatim>\<open>json.choices\<close> is null or undefined.
\<close>

definition deltaContent :: "json \<Rightarrow> json option" where
  "deltaContent json =
     (case json of
        JNull \<Rightarrow> None
      | _ \<Rightarrow>
          (case getProp json ''choices'' of
             None \<Rightarrow> None
           | Some JNull \<Rightarrow> None
           | Some choices \<Rightarrow>
               (case optionalProp (optionalProp (firstElement choices) ''delta'') ''content'' of
                  None \<Rightarrow> Some (JStr [])
                | Some v \<Rightarrow> Some (if truthy v then v else JStr []))))"

text \<open>
  The text \<^verbatim>\<open>fullResponse += token\<close> appends: the token converted to a string. An array
  joins its elements with commas, a null element giving the empty string.
\<close>

fun toStringJS :: "json \<Rightarrow> string" where
  "toStringJS JNull = ''null''"
| "toStringJS (JBool b) = (if b then ''true'' else ''false'')"
| "toStringJS (JNum nonzero shown) = shown"
| "toStringJS (JStr s) = s"
| "toStringJS (JArr xs) = join '','' (map (\<lambda>x. if x = JNull then [] else toStringJS x) xs)"
| "toStringJS (JObj kvs) = ''[object Object]''"

text \<open>
  What the body of the \<^verbatim>\<open>for (const line of lines)\<close> loop does with one line: return
  on the terminator, append a token, or nothing (a line without the prefix, a payload
  that \<^verbatim>\<open>JSON.parse\<close> rejects or whose token expression throws, both caught by the
  empty \<^verbatim>\<open>catch\<close>, and a falsy token).
\<close>

datatype frame = Terminator | Delta string | Skipped

definition decodeFrame :: "(string \<Rightarrow> json option) \<Rightarrow> string \<Rightarrow> frame" where
  "decodeFrame parse line =
     (if startsWith line ''data: '' then
        (let data = substring 6 line
         in if data = ''[DONE]'' then Terminator
            else (case parse data of
                    None \<Rightarrow> Skipped
                  | Some json \<Rightarrow>
                      (case deltaContent json of
                         None \<Rightarrow> Skipped
                       | Some token \<Rightarrow>
                           if truthy token then Delta (toStringJS token) else Skipped)))
      else Skipped)"

record ask_state =
  isVisible :: bool
  isLoading :: bool
  isStreaming :: bool
  currentQuestion :: string
  currentResponse :: string
  showTextInput :: bool

datatype role = System | User | Assistant

text \<open>
  The value of \<^verbatim>\<open>getSystemPrompt(profile, customPrompt, googleSearchEnabled)\<close>, which
  \<^verbatim>\<open>sendMessage\<close> places in the system message as the call returns it.
\<close>

datatype system_prompt = GetSystemPrompt string string bool

datatype content_part = TextPart string | ImageUrlPart string

datatype content =
    PromptContent system_prompt
  | PartsContent "content_part list"
  | TextContent string

datatype message = Message role content

text \<open>
  The effects the service performs, in the order it performs them:
  the \<^verbatim>\<open>window:requestVisibility\<close> request for the ask window, a call of
  \<^verbatim>\<open>_broadcastState()\<close> with the snapshot of \<^verbatim>\<open>this.state\<close> it publishes, the abort of the
  controller with a given identity, \<^verbatim>\<open>askRepository.addAiMessage\<close>,
  \<^verbatim>\<open>captureScreenshot\<close>, \<^verbatim>\<open>streamingLLM.streamChat(messages)\<close>, the cancellation of a
  reader nobody will consume, and the \<^verbatim>\<open>ask-response-stream-error\<close> message.
\<close>

datatype event =
    RequestVisibility bool
  | Broadcast ask_state
  | Abort nat string
  | AddAiMessage nat role string
  | CaptureScreenshot
  | StreamChat "message list"
  | CancelReader
  | StreamError "string option"

text \<open>
  The lines of one chunk. The result says whether the terminator was met, and gives
  the response text so far, the state and the effects.
\<close>

fun processLines ::
  "(string \<Rightarrow> json option) \<Rightarrow> string list \<Rightarrow> string \<Rightarrow> ask_state
     \<Rightarrow> bool \<times> string \<times> ask_state \<times> event list" where
  "processLines parse [] fullResponse st = (False, fullResponse, st, [])"
| "processLines parse (line # rest) fullResponse st =
     (case decodeFrame parse line of
        Terminator \<Rightarrow> (True, fullResponse, st, [])
      | Skipped \<Rightarrow> processLines parse rest fullResponse st
      | Delta token \<Rightarrow>
          (let fullResponse' = fullResponse @ token;
               st' = st\<lparr>currentResponse := fullResponse'\<rparr>
           in case processLines parse rest fullResponse' st' of
                (done, full, st'', evs) \<Rightarrow> (done, full, st'', Broadcast st' # evs)))"

text \<open>\<^verbatim>\<open>chunk.split('\n').filter(line => line.trim() !== '')\<close>.\<close>

definition chunkLines :: "string \<Rightarrow> string list" where
  "chunkLines chunk = filter (\<lambda>line. trim line \<noteq> []) (split_lines chunk)"

text \<open>
  The reader as the sequence of results of its \<^verbatim>\<open>read()\<close> calls: a decoded chunk or a
  rejection; when the sequence is used up the reader reports \<^verbatim>\<open>done\<close> (as it does
  after it has been cancelled).
\<close>

datatype read_result = Value string | ReadThrows js_error

datatype stream_exit = ReaderDone | SawTerminator | ReadFailed js_error

fun readLoop ::
  "(string \<Rightarrow> json option) \<Rightarrow> read_result list \<Rightarrow> string \<Rightarrow> ask_state
     \<Rightarrow> stream_exit \<times> string \<times> ask_state \<times> event list" where
  "readLoop parse [] fullResponse st = (ReaderDone, fullResponse, st, [])"
| "readLoop parse (ReadThrows e # rest) fullResponse st = (ReadFailed e, fullResponse, st, [])"
| "readLoop parse (Value chunk # rest) fullResponse st =
     (let lines = chunkLines chunk
      in case processLines parse lines fullResponse st of
           (done, full, st', evs) \<Rightarrow>
             if done then (SawTerminator, full, st', evs)
             else (case readLoop parse rest full st' of
                     (exit, full', st'', evs') \<Rightarrow> (exit, full', st'', evs @ evs')))"

text \<open>
  The \<^verbatim>\<open>finally\<close> block of \<^verbatim>\<open>_processStream\<close>, run with the state \<^verbatim>\<open>this.state\<close>
  refers to at that moment: reset the streaming flag, make the accumulated text the
  response, publish, and store the text when it is not empty.
\<close>

definition streamCleanup :: "nat \<Rightarrow> string \<Rightarrow> ask_state \<Rightarrow> ask_state \<times> event list" where
  "streamCleanup sessionId fullResponse st =
     (let st' = st\<lparr>isStreaming := False, currentResponse := fullResponse\<rparr>;
          saved = (if fullResponse \<noteq> []
                   then [AddAiMessage sessionId Assistant fullResponse]
                   else [])
      in (st', Broadcast st' # saved))"

text \<open>
  \<^verbatim>\<open>_processStream(reader, askWin, sessionId, signal)\<close>: the \<^verbatim>\<open>try\<close> block runs the read
  loop, the \<^verbatim>\<open>catch\<close> block reports a failed read unless the signal is aborted, and
  the \<^verbatim>\<open>finally\<close> block cleans up.
\<close>

definition processStream ::
  "(string \<Rightarrow> json option) \<Rightarrow> read_result list \<Rightarrow> bool \<Rightarrow> nat \<Rightarrow> bool \<Rightarrow> ask_state
     \<Rightarrow> ask_state \<times> event list" where
  "processStream parse reader askWinAlive sessionId signalAborted st0 =
     (let st1 = st0\<lparr>isLoading := False, isStreaming := True\<rparr>
      in case readLoop parse reader [] st1 of
           (exit, fullResponse, st2, evs) \<Rightarrow>
             (let caught = (case exit of
                              ReadFailed streamError \<Rightarrow>
                                if signalAborted then []
                                else if askWinAlive then [StreamError (message streamError)]
                                else []
                            | _ \<Rightarrow> [])
              in case streamCleanup sessionId fullResponse st2 of
                   (st3, cleaned) \<Rightarrow> (st3, Broadcast st1 # evs @ caught @ cleaned)))"

section \<open>The request orchestrator (AskService.sendMessage, toggleAskButton)\<close>

text \<open>
  The mutable state the service works on: \<^verbatim>\<open>this.state\<close>, \<^verbatim>\<open>this.abortController\<close>
  (the identity of the controller, if there is one) and the module's queue.
\<close>

record service =
  state :: ask_state
  abortController :: "nat option"
  screenshotQueue :: "screenshot list"

record model_info =
  provider :: string
  model :: string
  apiKey :: "string option"

datatype capture_result =
    Captured string "int option" "int option"
  | CaptureFailed string

text \<open>The places where \<^verbatim>\<open>sendMessage\<close> and \<^verbatim>\<open>_processStream\<close> look for a live ask window.\<close>

datatype win_check = AtResponse | AtFallback | AtStreamError | AtError

text \<open>
  What the collaborators answer during one call of \<^verbatim>\<open>sendMessage\<close>: the parser, the
  session and message repositories, the model state, the screen capture, the provider
  factory, the provider's \<^verbatim>\<open>streamChat\<close> (by the number of earlier calls and the
  messages; \<open>Inr\<close> is the reader of the response body), the ask window, whether the
  request's signal is aborted when a read fails, the identity of the controller the
  call creates, and whether the ask window is visible.
\<close>

record env =
  jsonParse :: "string \<Rightarrow> json option"
  getOrCreateActive :: "js_error + nat"
  addUserMessage :: "js_error option"
  getCurrentModelInfo :: "js_error + model_info option"
  captureScreenshot :: capture_result
  createStreamingLLM :: "js_error option"
  streamChat :: "nat \<Rightarrow> message list \<Rightarrow> js_error + read_result list"
  askWinAlive :: "win_check \<Rightarrow> bool"
  signalAborted :: bool
  newController :: nat
  askWindowVisible :: bool

datatype send_result = Success | Failure "string option"

text \<open>Decimal digits of a number inside a template string.\<close>

fun showNat :: "nat \<Rightarrow> string" where
  "showNat n =
     (if n < 10 then [char_of (48 + n)]
      else showNat (n div 10) @ [char_of (48 + n mod 10)])"

declare showNat.simps [simp del]

text \<open>
  Queued screenshots win over a fresh capture and are drained whole; a failed capture
  leaves the request without screenshots.
\<close>

definition selectScreenshots ::
  "env \<Rightarrow> service \<Rightarrow> screenshot list \<times> bool \<times> service \<times> event list" where
  "selectScreenshots e svc =
     (if hasQueuedScreenshots (screenshotQueue svc) then
        (case getAndClearScreenshotQueue (screenshotQueue svc) of
           (queue, emptied) \<Rightarrow> (queue, True, svc\<lparr>screenshotQueue := emptied\<rparr>, []))
      else
        (case captureScreenshot e of
           Captured b w h \<Rightarrow>
             ([\<lparr>base64 = Some b, width = w, height = h, timestamp = None\<rparr>], False, svc,
              [CaptureScreenshot])
         | CaptureFailed msg \<Rightarrow> ([], False, svc, [CaptureScreenshot])))"

definition chooseSystemPrompt :: "bool \<Rightarrow> screenshot list \<Rightarrow> string \<Rightarrow> system_prompt" where
  "chooseSystemPrompt usingQueuedScreenshots screenshotsToAnalyze conversationHistory =
     (if usingQueuedScreenshots \<and> length screenshotsToAnalyze > 0
      then GetSystemPrompt ''pickle_glass_screenshot_analysis'' conversationHistory False
      else GetSystemPrompt ''pickle_glass_analysis'' conversationHistory False)"

definition chooseUserText :: "string \<Rightarrow> bool \<Rightarrow> screenshot list \<Rightarrow> string" where
  "chooseUserText userPrompt usingQueuedScreenshots screenshotsToAnalyze =
     (let userText = trim userPrompt
      in if usingQueuedScreenshots \<and> length screenshotsToAnalyze > 0 \<and> userText = [] then
           ''Analyze the following '' @ showNat (length screenshotsToAnalyze)
             @ '' screenshot(s). Identify the type of content:'' @ [CHR 0x0A]
             @ ''- If it'' @ [CHR 0x27] @ ''s an MCQ (Multiple Choice Question), provide the correct answer with a clear explanation.'' @ [CHR 0x0A]
             @ ''- If it'' @ [CHR 0x27] @ ''s a Coding question/problem, provide the complete solution code with explanation.'' @ [CHR 0x0A]
             @ ''- If it'' @ [CHR 0x27] @ ''s neither, describe what you see and provide relevant insights.''
         else userText)"

text \<open>One image part for every screenshot whose \<^verbatim>\<open>base64\<close> is truthy.\<close>

definition imageParts :: "screenshot list \<Rightarrow> content_part list" where
  "imageParts screenshotsToAnalyze =
     concat (map (\<lambda>shot. case base64 shot of
                            None \<Rightarrow> []
                          | Some b \<Rightarrow>
                              if b \<noteq> [] then [ImageUrlPart (''data:image/jpeg;base64,'' @ b)]
                              else [])
                 screenshotsToAnalyze)"

definition multimodalMessages ::
  "system_prompt \<Rightarrow> string \<Rightarrow> screenshot list \<Rightarrow> message list" where
  "multimodalMessages systemPrompt userText screenshotsToAnalyze =
     [Message System (PromptContent systemPrompt),
      Message User (PartsContent (TextPart (''User Request: '' @ userText)
                                   # imageParts screenshotsToAnalyze))]"

definition textOnlyMessages :: "system_prompt \<Rightarrow> string \<Rightarrow> message list" where
  "textOnlyMessages systemPrompt userText =
     [Message System (PromptContent systemPrompt),
      Message User (TextContent (''User Request: '' @ userText))]"

text \<open>
  The block \<^verbatim>\<open>sendMessage\<close> writes twice, for the first request and for the fallback:
  call \<^verbatim>\<open>streamChat\<close>; without a live ask window cancel the reader and return the
  failure result; otherwise process the stream and return success. \<open>Inl\<close> is the
  error \<^verbatim>\<open>streamChat\<close> throws.
\<close>

definition streamAttempt ::
  "env \<Rightarrow> nat \<Rightarrow> win_check \<Rightarrow> message list \<Rightarrow> nat \<Rightarrow> ask_state
     \<Rightarrow> (js_error + send_result) \<times> ask_state \<times> event list" where
  "streamAttempt e calls site messages sessionId st =
     (case streamChat e calls messages of
        Inl err \<Rightarrow> (Inl err, st, [StreamChat messages])
      | Inr reader \<Rightarrow>
          if \<not> askWinAlive e site then
            (Inr (Failure (Some ''Ask window is not available.'')), st,
             [StreamChat messages, CancelReader])
          else
            (case processStream (jsonParse e) reader (askWinAlive e AtStreamError) sessionId
                    (signalAborted e) st of
               (st', evs) \<Rightarrow> (Inr Success, st', StreamChat messages # evs)))"

text \<open>The inner \<^verbatim>\<open>try\<close> and its \<^verbatim>\<open>catch (multimodalError)\<close>.\<close>

definition streamWithFallback ::
  "env \<Rightarrow> system_prompt \<Rightarrow> string \<Rightarrow> screenshot list \<Rightarrow> nat \<Rightarrow> ask_state
     \<Rightarrow> (js_error + send_result) \<times> ask_state \<times> event list" where
  "streamWithFallback e systemPrompt userText screenshotsToAnalyze sessionId st =
     (case streamAttempt e 0 AtResponse
             (multimodalMessages systemPrompt userText screenshotsToAnalyze) sessionId st of
        (Inr r, st', evs) \<Rightarrow> (Inr r, st', evs)
      | (Inl multimodalError, st', evs) \<Rightarrow>
          if length screenshotsToAnalyze > 0 \<and> isMultimodalError multimodalError then
            (case streamAttempt e 1 AtFallback (textOnlyMessages systemPrompt userText)
                    sessionId st' of
               (r, st'', evs') \<Rightarrow> (r, st'', evs @ evs'))
          else (Inl multimodalError, st', evs))"

text \<open>The outer \<^verbatim>\<open>try\<close> block; \<open>Inl\<close> is the error that reaches the outer \<^verbatim>\<open>catch\<close>.\<close>

definition processMessage ::
  "env \<Rightarrow> string \<Rightarrow> string list option \<Rightarrow> service
     \<Rightarrow> (js_error + send_result) \<times> service \<times> event list" where
  "processMessage e userPrompt conversationHistoryRaw svc =
     (case getOrCreateActive e of
        Inl err \<Rightarrow> (Inl err, svc, [])
      | Inr sessionId \<Rightarrow>
          (let saved = [AddAiMessage sessionId User (trim userPrompt)]
           in case addUserMessage e of
                Some err \<Rightarrow> (Inl err, svc, saved)
              | None \<Rightarrow>
                  (case getCurrentModelInfo e of
                     Inl err \<Rightarrow> (Inl err, svc, saved)
                   | Inr modelInfo \<Rightarrow>
                       if (case modelInfo of
                             None \<Rightarrow> True
                           | Some info \<Rightarrow> (case apiKey info of None \<Rightarrow> True | Some k \<Rightarrow> k = []))
                       then (Inl (Error (Some ''AI model or API key not configured.'')), svc, saved)
                       else
                         (case selectScreenshots e svc of
                            (screenshotsToAnalyze, usingQueuedScreenshots, svc', captured) \<Rightarrow>
                              (let conversationHistory =
                                     formatConversationForPrompt conversationHistoryRaw;
                                   systemPrompt =
                                     chooseSystemPrompt usingQueuedScreenshots
                                       screenshotsToAnalyze conversationHistory;
                                   userText =
                                     chooseUserText userPrompt usingQueuedScreenshots
                                       screenshotsToAnalyze
                               in case createStreamingLLM e of
                                    Some err \<Rightarrow> (Inl err, svc', saved @ captured)
                                  | None \<Rightarrow>
                                      (case streamWithFallback e systemPrompt userText
                                              screenshotsToAnalyze sessionId (state svc') of
                                         (r, st, evs) \<Rightarrow>
                                           (r, svc'\<lparr>state := st\<rparr>,
                                            saved @ captured @ evs)))))))"

text \<open>
  The two assignments to \<^verbatim>\<open>this.state\<close> in \<^verbatim>\<open>sendMessage\<close>: on entry, and in the outer
  \<^verbatim>\<open>catch\<close> block.
\<close>

definition loadingState :: "string \<Rightarrow> ask_state \<Rightarrow> ask_state" where
  "loadingState userPrompt st =
     st\<lparr>isLoading := True, isStreaming := False, currentQuestion := userPrompt,
        currentResponse := [], showTextInput := False\<rparr>"

definition idleAfterError :: "ask_state \<Rightarrow> ask_state" where
  "idleAfterError st = st\<lparr>isLoading := False, isStreaming := False, showTextInput := True\<rparr>"

text \<open>
  \<^verbatim>\<open>sendMessage(userPrompt, conversationHistoryRaw)\<close> up to its first \<^verbatim>\<open>await\<close>:
  request visibility, publish the loading state, abort the previous controller and
  install a new one.
\<close>

definition beginRequest :: "env \<Rightarrow> string \<Rightarrow> service \<Rightarrow> service \<times> event list" where
  "beginRequest e userPrompt svc =
     (let loading = loadingState userPrompt (state svc);
          aborted = (case abortController svc of
                       None \<Rightarrow> []
                     | Some previous \<Rightarrow> [Abort previous ''New request received.''])
      in (svc\<lparr>state := loading, abortController := Some (newController e)\<rparr>,
          RequestVisibility True # Broadcast loading # aborted))"

text \<open>
  How \<^verbatim>\<open>sendMessage\<close> ends: with the result the \<^verbatim>\<open>try\<close> block returns, or through the
  outer \<^verbatim>\<open>catch\<close> block, which publishes the idle state and reports the error.
\<close>

definition finishRequest ::
  "env \<Rightarrow> (js_error + send_result) \<times> service \<times> event list
     \<Rightarrow> send_result \<times> service \<times> event list" where
  "finishRequest e outcome =
     (case outcome of
        (Inr r, svc2, evs) \<Rightarrow> (r, svc2, evs)
      | (Inl err, svc2, evs) \<Rightarrow>
          (let idle = idleAfterError (state svc2);
               streamError = (case message err of
                                None \<Rightarrow> ''Unknown error occurred''
                              | Some m \<Rightarrow> if m \<noteq> [] then m else ''Unknown error occurred'');
               reported = (if askWinAlive e AtError then [StreamError (Some streamError)]
                           else [])
           in (Failure (message err), svc2\<lparr>state := idle\<rparr>,
               evs @ Broadcast idle # reported)))"

text \<open>A call of \<^verbatim>\<open>sendMessage\<close> that no other request's code runs in between.\<close>

definition sendMessage ::
  "env \<Rightarrow> string \<Rightarrow> string list option \<Rightarrow> service
     \<Rightarrow> send_result \<times> service \<times> event list" where
  "sendMessage e userPrompt conversationHistoryRaw svc =
     (case beginRequest e userPrompt svc of
        (svc1, started) \<Rightarrow>
          (case finishRequest e (processMessage e userPrompt conversationHistoryRaw svc1) of
             (result, svc', evs) \<Rightarrow> (result, svc', started @ evs)))"

text \<open>
  A call of \<^verbatim>\<open>sendMessage\<close> made while an earlier request is inside its read loop,
  waiting in \<^verbatim>\<open>await reader.read()\<close> with \<open>oldFullResponse\<close> accumulated for session
  \<open>oldSessionId\<close>. The abort in \<open>beginRequest\<close> runs the earlier request's abort listener,
  which cancels its reader, so its pending read resolves with \<^verbatim>\<open>done\<close>. When the new
  call reaches its first \<^verbatim>\<open>await\<close> the earlier \<^verbatim>\<open>_processStream\<close> resumes, leaves its loop
  and runs its \<^verbatim>\<open>finally\<close> block, on the state object the new call has just installed.
  Then the new call continues.
\<close>

definition sendMessageSuperseding ::
  "env \<Rightarrow> string \<Rightarrow> string list option \<Rightarrow> nat \<Rightarrow> string \<Rightarrow> service
     \<Rightarrow> send_result \<times> service \<times> event list" where
  "sendMessageSuperseding e userPrompt conversationHistoryRaw oldSessionId oldFullResponse svc =
     (case beginRequest e userPrompt svc of
        (svc1, started) \<Rightarrow>
          (case streamCleanup oldSessionId oldFullResponse (state svc1) of
             (st, cleaned) \<Rightarrow>
               (case finishRequest e
                       (processMessage e userPrompt conversationHistoryRaw
                          (svc1\<lparr>state := st\<rparr>)) of
                  (result, svc', evs) \<Rightarrow> (result, svc', started @ cleaned @ evs))))"

text \<open>
  \<^verbatim>\<open>toggleAskButton(inputScreenOnly)\<close>; the shortcut \<^verbatim>\<open>nextStep\<close> calls it with
  \<^verbatim>\<open>true\<close>.
\<close>

definition toggleAskButton :: "env \<Rightarrow> bool \<Rightarrow> service \<Rightarrow> service \<times> event list" where
  "toggleAskButton e inputScreenOnly svc =
     (if isLoading (state svc) \<or> isStreaming (state svc) then (svc, [])
      else if inputScreenOnly \<and> showTextInput (state svc) \<and> askWindowVisible e then
        (case sendMessage e [] (Some []) svc of (r, svc', evs) \<Rightarrow> (svc', evs))
      else
        (let hasContent = (isLoading (state svc) \<or> isStreaming (state svc)
                           \<or> currentResponse (state svc) \<noteq> [])
         in if askWindowVisible e \<and> hasContent then
              (let st = (state svc)\<lparr>showTextInput := \<not> showTextInput (state svc)\<rparr>
               in (svc\<lparr>state := st\<rparr>, [Broadcast st]))
            else
              (let st = (if askWindowVisible e then (state svc)\<lparr>isVisible := False\<rparr>
                         else (state svc)\<lparr>isVisible := True\<rparr>);
                   requested = (if askWindowVisible e then [RequestVisibility False]
                                else [RequestVisibility True])
               in if isVisible st then
                    (let st' = st\<lparr>showTextInput := True\<rparr>
                     in (svc\<lparr>state := st'\<rparr>, requested @ [Broadcast st']))
                  else (svc\<lparr>state := st\<rparr>, requested))))"

definition nextStepShortcut :: "env \<Rightarrow> service \<Rightarrow> service \<times> event list" where
  "nextStepShortcut e svc = toggleAskButton e True svc"

subsection \<open>Reading a run\<close>

text \<open>
  The observers the statements below use: the answer text of each publication, the
  provider calls, and the images, system contents and request texts of a payload.
\<close>

fun publishedAnswers :: "event list \<Rightarrow> string list" where
  "publishedAnswers [] = []"
| "publishedAnswers (Broadcast st # evs) = currentResponse st # publishedAnswers evs"
| "publishedAnswers (_ # evs) = publishedAnswers evs"

fun providerCalls :: "event list \<Rightarrow> message list list" where
  "providerCalls [] = []"
| "providerCalls (StreamChat messages # evs) = messages # providerCalls evs"
| "providerCalls (_ # evs) = providerCalls evs"

fun partImages :: "content_part list \<Rightarrow> string list" where
  "partImages [] = []"
| "partImages (ImageUrlPart url # ps) = url # partImages ps"
| "partImages (TextPart t # ps) = partImages ps"

fun partTexts :: "content_part list \<Rightarrow> string list" where
  "partTexts [] = []"
| "partTexts (TextPart t # ps) = t # partTexts ps"
| "partTexts (ImageUrlPart url # ps) = partTexts ps"

fun payloadImages :: "message list \<Rightarrow> string list" where
  "payloadImages [] = []"
| "payloadImages (Message r (PartsContent ps) # ms) = partImages ps @ payloadImages ms"
| "payloadImages (_ # ms) = payloadImages ms"

fun payloadSystem :: "message list \<Rightarrow> system_prompt list" where
  "payloadSystem [] = []"
| "payloadSystem (Message System (PromptContent sp) # ms) = sp # payloadSystem ms"
| "payloadSystem (_ # ms) = payloadSystem ms"

fun payloadQuestion :: "message list \<Rightarrow> string list" where
  "payloadQuestion [] = []"
| "payloadQuestion (Message User (PartsContent ps) # ms) = partTexts ps @ payloadQuestion ms"
| "payloadQuestion (Message User (TextContent t) # ms) = t # payloadQuestion ms"
| "payloadQuestion (_ # ms) = payloadQuestion ms"

text \<open>
  The position of the first element with a property (the length of the list when
  there is none), the publications that show \<^verbatim>\<open>isLoading\<close>, and the aborts of one
  controller.
\<close>

definition firstIndex :: "('a \<Rightarrow> bool) \<Rightarrow> 'a list \<Rightarrow> nat" where
  "firstIndex P xs = length (takeWhile (\<lambda>x. \<not> P x) xs)"

fun publishesLoading :: "event \<Rightarrow> bool" where
  "publishesLoading (Broadcast st) = isLoading st"
| "publishesLoading _ = False"

fun abortsController :: "nat \<Rightarrow> event \<Rightarrow> bool" where
  "abortsController c (Abort c' reason) = (c' = c)"
| "abortsController c _ = False"

subsection \<open>A concrete run\<close>

text \<open>
  One submission used to exercise the statements below: the question
  'What is on screen?' arrives while an earlier request (controller 0) is streaming
  and one screenshot is queued. The provider rejects any payload with an image and
  answers a text-only payload with the tokens 'Hel' and 'lo', one malformed frame in
  between, then the terminator. \<open>scenarioParse\<close> is \<^verbatim>\<open>JSON.parse\<close> on the payloads of
  this stream.
\<close>

definition scenarioDelta :: "string \<Rightarrow> json" where
  "scenarioDelta text =
     JObj [(''choices'', JArr [JObj [(''delta'', JObj [(''content'', JStr text)])]])]"

definition scenarioParse :: "string \<Rightarrow> json option" where
  "scenarioParse data =
     (if data = ''{\"choices\":[{\"delta\":{\"content\":\"Hel\"}}]}''
      then Some (scenarioDelta ''Hel'')
      else if data = ''{\"choices\":[{\"delta\":{\"content\":\"lo\"}}]}''
      then Some (scenarioDelta ''lo'')
      else None)"

definition scenarioReader :: "read_result list" where
  "scenarioReader =
     [Value (''data: {\"choices\":[{\"delta\":{\"content\":\"Hel\"}}]}'' @ [CHR 0x0A, CHR 0x0A]
             @ ''data: {oops'' @ [CHR 0x0A]),
      Value (''data: {\"choices\":[{\"delta\":{\"content\":\"lo\"}}]}'' @ [CHR 0x0A, CHR 0x0A]),
      Value (''data: [DONE]'' @ [CHR 0x0A, CHR 0x0A])]"

definition scenarioQuestion :: string where
  "scenarioQuestion = ''What is on screen?''"

definition scenarioRejection :: js_error where
  "scenarioRejection = Error (Some ''400 image input'')"

definition scenarioProvider :: "nat \<Rightarrow> message list \<Rightarrow> js_error + read_result list" where
  "scenarioProvider calls messages =
     (if payloadImages messages \<noteq> [] then Inl scenarioRejection
      else Inr scenarioReader)"

definition scenarioEnv :: env where
  "scenarioEnv =
     \<lparr>jsonParse = scenarioParse,
      getOrCreateActive = Inr 7,
      addUserMessage = None,
      getCurrentModelInfo = Inr (Some \<lparr>provider = ''copilot'', model = ''gpt-4o'',
                                       apiKey = Some ''token''\<rparr>),
      captureScreenshot = CaptureFailed ''No screen sources available'',
      createStreamingLLM = None,
      streamChat = scenarioProvider,
      askWinAlive = (\<lambda>site. True),
      signalAborted = False,
      newController = 1,
      askWindowVisible = True\<rparr>"

definition scenarioService :: service where
  "scenarioService =
     \<lparr>state = \<lparr>isVisible = True, isLoading = False, isStreaming = True,
               currentQuestion = ''Earlier question'', currentResponse = ''Earlier'',
               showTextInput = False\<rparr>,
      abortController = Some 0,
      screenshotQueue = [\<lparr>base64 = Some ''QUJD'', width = Some 1920, height = Some 1080,
                          timestamp = Some 1\<rparr>]\<rparr>"

definition scenarioEvents :: "event list" where
  "scenarioEvents = snd (snd (sendMessage scenarioEnv scenarioQuestion None scenarioService))"

text \<open>
  The same submission with the earlier request's continuation taken into account: the
  earlier stream has accumulated the text of the state, for session 7.
\<close>

definition scenarioSupersedingEvents :: "event list" where
  "scenarioSupersedingEvents =
     snd (snd (sendMessageSuperseding scenarioEnv scenarioQuestion None 7
                 (currentResponse (state scenarioService)) scenarioService))"

text \<open>A reader whose second read fails, after one token has arrived.\<close>

definition scenarioBrokenReader :: "read_result list" where
  "scenarioBrokenReader =
     [Value (''data: {\"choices\":[{\"delta\":{\"content\":\"Hel\"}}]}'' @ [CHR 0x0A, CHR 0x0A]),
      ReadThrows (Error (Some ''terminated''))]"

section \<open>Properties of the screenshot queue\<close>

lemma slice_from_last:
  "slice_from (- int MAX_SCREENSHOT_QUEUE_SIZE) xs = most_recent MAX_SCREENSHOT_QUEUE_SIZE xs"
  by (simp add: slice_from_def most_recent_def Let_def MAX_SCREENSHOT_QUEUE_SIZE_def
      nat_diff_distrib' max_def)

lemma limit_is_most_recent:
  "(if length xs > n then most_recent n xs else xs) = most_recent n xs"
  by (simp add: most_recent_def)

lemma most_recent_snoc:
  "most_recent n (most_recent n xs @ [x]) = most_recent n (xs @ [x])"
  by (cases "length xs \<le> n") (auto simp: most_recent_def Suc_diff_le)

lemma most_recent_length: "length (most_recent n xs) \<le> n"
  by (simp add: most_recent_def)

lemma addScreenshotToQueue_snd:
  "snd (addScreenshotToQueue now shot q) = most_recent 10 (q @ [shot\<lparr>timestamp := Some now\<rparr>])"
  unfolding addScreenshotToQueue_def Let_def
  unfolding slice_from_last limit_is_most_recent
  by (simp add: MAX_SCREENSHOT_QUEUE_SIZE_def)

lemma addScreenshotToQueue_fst:
  "fst (addScreenshotToQueue now shot q) = Inr (length (snd (addScreenshotToQueue now shot q)))"
  by (simp add: addScreenshotToQueue_def Let_def)

lemma captureManualScreenshotToQueue_snd:
  "snd (captureManualScreenshotToQueue now (FirstSource b w h) q) =
     most_recent 10
       (q @ [\<lparr>base64 = Some b, width = Some w, height = Some h, timestamp = Some now\<rparr>])"
  unfolding captureManualScreenshotToQueue_def Let_def
  unfolding slice_from_last limit_is_most_recent
  by (simp add: MAX_SCREENSHOT_QUEUE_SIZE_def)

lemma captureManualScreenshotToQueue_failed:
  "snd (captureManualScreenshotToQueue now (CaptureThrows msg) q) = q"
  "snd (captureManualScreenshotToQueue now NoSources q) = q"
  by (simp_all add: captureManualScreenshotToQueue_def)

lemma run_enqueue_most_recent:
  "run_enqueue c (most_recent 10 xs) = most_recent 10 (xs @ enqueued_entries [c])"
proof (cases c)
  case (FromRenderer now shot)
  then show ?thesis
    by (simp add: addScreenshotToQueue_snd most_recent_snoc)
next
  case (FromShortcut now cap)
  then show ?thesis
    by (cases cap)
      (simp_all add: captureManualScreenshotToQueue_snd captureManualScreenshotToQueue_failed
        most_recent_snoc)
qed

lemma enqueued_entries_Cons:
  "enqueued_entries (c # cs) = enqueued_entries [c] @ enqueued_entries cs"
proof (cases c)
  case (FromRenderer now shot)
  then show ?thesis by simp
next
  case (FromShortcut now cap)
  then show ?thesis by (cases cap) simp_all
qed

lemma run_enqueues_most_recent:
  "run_enqueues cs (most_recent 10 xs) = most_recent 10 (xs @ enqueued_entries cs)"
proof (induction cs arbitrary: xs)
  case Nil
  then show ?case by simp
next
  case (Cons c cs)
  have "run_enqueues (c # cs) (most_recent 10 xs)
      = run_enqueues cs (most_recent 10 (xs @ enqueued_entries [c]))"
    by (simp add: run_enqueue_most_recent)
  also have "\<dots> = most_recent 10 ((xs @ enqueued_entries [c]) @ enqueued_entries cs)"
    by (rule Cons.IH)
  finally show ?case
    using enqueued_entries_Cons [of c cs] by simp
qed

text \<open>
  C3. Starting from the empty queue the module is loaded with, after any sequence of
  enqueue calls (through either producer) the queue holds at most ten entries, and
  they are exactly the ten most recently enqueued entries, or all of them when fewer
  than ten were enqueued, in insertion order. The same holds from any queue of at
  most ten entries, counting those as enqueued first. In particular, adding an entry
  to a full queue of ten drops the oldest one and appends the new one at the end.
\<close>

theorem C3_queue_keeps_ten_most_recent:
  "length (run_enqueues cs []) \<le> 10
   \<and> run_enqueues cs [] = most_recent 10 (enqueued_entries cs)
   \<and> (length (enqueued_entries cs) \<le> 10 \<longrightarrow> run_enqueues cs [] = enqueued_entries cs)
   \<and> (length q \<le> 10 \<longrightarrow>
        run_enqueues cs q = most_recent 10 (q @ enqueued_entries cs)
        \<and> length (run_enqueues cs q) \<le> 10)
   \<and> (length q = 10 \<longrightarrow>
        snd (addScreenshotToQueue now s q) = tl q @ [s\<lparr>timestamp := Some now\<rparr>]
        \<and> fst (addScreenshotToQueue now s q) = Inr 10)"
proof -
  have run: "run_enqueues cs [] = most_recent 10 (enqueued_entries cs)"
    using run_enqueues_most_recent [of cs "[]"] by (simp add: most_recent_def)
  have len: "length (run_enqueues cs []) \<le> 10"
    unfolding run by (rule most_recent_length)
  have few: "length (enqueued_entries cs) \<le> 10 \<longrightarrow> run_enqueues cs [] = enqueued_entries cs"
    unfolding run by (simp add: most_recent_def)
  have full: "length q = 10 \<longrightarrow>
        snd (addScreenshotToQueue now s q) = tl q @ [s\<lparr>timestamp := Some now\<rparr>]
        \<and> fst (addScreenshotToQueue now s q) = Inr 10"
    by (cases q)
      (simp_all add: addScreenshotToQueue_fst addScreenshotToQueue_snd most_recent_def)
  have later: "length q \<le> 10 \<longrightarrow>
        run_enqueues cs q = most_recent 10 (q @ enqueued_entries cs)
        \<and> length (run_enqueues cs q) \<le> 10"
  proof
    assume "length q \<le> 10"
    then have "most_recent 10 q = q"
      by (simp add: most_recent_def)
    with run_enqueues_most_recent [of cs q]
    have "run_enqueues cs q = most_recent 10 (q @ enqueued_entries cs)"
      by simp
    then show "run_enqueues cs q = most_recent 10 (q @ enqueued_entries cs)
        \<and> length (run_enqueues cs q) \<le> 10"
      by (simp add: most_recent_length)
  qed
  from len run few later full show ?thesis by blast
qed

theorem C3_queue_witness:
  "length (enqueued_entries [FromRenderer 1 \<lparr>base64 = Some ''QQ=='', width = None, height = None, timestamp = None\<rparr>, FromShortcut 2 NoSources]) \<le> 10
   \<and> run_enqueues [FromRenderer 1 \<lparr>base64 = Some ''QQ=='', width = None, height = None, timestamp = None\<rparr>, FromShortcut 2 NoSources] []
       = enqueued_entries [FromRenderer 1 \<lparr>base64 = Some ''QQ=='', width = None, height = None, timestamp = None\<rparr>, FromShortcut 2 NoSources]
   \<and> length (replicate 10 \<lparr>base64 = None, width = None, height = None, timestamp = Some 0\<rparr>) \<le> 10
   \<and> length (run_enqueues [FromRenderer 1 \<lparr>base64 = Some ''QQ=='', width = None, height = None, timestamp = None\<rparr>, FromShortcut 2 NoSources]
               (replicate 10 \<lparr>base64 = None, width = None, height = None, timestamp = Some 0\<rparr>)) \<le> 10
   \<and> length (replicate 10 \<lparr>base64 = None, width = None, height = None, timestamp = Some 0\<rparr>) = 10
   \<and> snd (addScreenshotToQueue 7 \<lparr>base64 = Some ''QQ=='', width = None, height = None, timestamp = None\<rparr>
             (replicate 10 \<lparr>base64 = None, width = None, height = None, timestamp = Some 0\<rparr>))
       = tl (replicate 10 \<lparr>base64 = None, width = None, height = None, timestamp = Some 0\<rparr>)
           @ [\<lparr>base64 = Some ''QQ=='', width = None, height = None, timestamp = None\<rparr>\<lparr>timestamp := Some 7\<rparr>]"
proof -
  have h1: "length (enqueued_entries [FromRenderer 1 \<lparr>base64 = Some ''QQ=='', width = None, height = None, timestamp = None\<rparr>, FromShortcut 2 NoSources]) \<le> 10"
    by simp
  have h2: "length (replicate 10 \<lparr>base64 = None, width = None, height = None, timestamp = Some (0::nat)\<rparr>) = 10"
    by simp
  have h3: "length (replicate 10 \<lparr>base64 = None, width = None, height = None, timestamp = Some (0::nat)\<rparr>) \<le> 10"
    by simp
  from h1 h2 h3 C3_queue_keeps_ten_most_recent
      [of "[FromRenderer 1 \<lparr>base64 = Some ''QQ=='', width = None, height = None, timestamp = None\<rparr>, FromShortcut 2 NoSources]"
          "replicate 10 \<lparr>base64 = None, width = None, height = None, timestamp = Some 0\<rparr>" 7
          "\<lparr>base64 = Some ''QQ=='', width = None, height = None, timestamp = None\<rparr>"]
  show ?thesis by blast
qed

text \<open>
  C4. Draining returns every queued entry in insertion order and leaves the queue
  empty, in a single step: right after it the queue size is 0 and no screenshot is
  queued. After any sequence of enqueue calls the drained entries are the (at most
  ten) most recently enqueued ones, oldest first.
\<close>

theorem C4_drain_returns_all_and_empties:
  "fst (getAndClearScreenshotQueue q) = q
   \<and> snd (getAndClearScreenshotQueue q) = []
   \<and> getScreenshotQueueSize (snd (getAndClearScreenshotQueue q)) = 0
   \<and> \<not> hasQueuedScreenshots (snd (getAndClearScreenshotQueue q))
   \<and> fst (getAndClearScreenshotQueue (run_enqueues cs [])) = most_recent 10 (enqueued_entries cs)"
proof -
  have "run_enqueues cs [] = most_recent 10 (enqueued_entries cs)"
    using run_enqueues_most_recent [of cs "[]"] by (simp add: most_recent_def)
  then show ?thesis
    by (simp add: getAndClearScreenshotQueue_def getScreenshotQueueSize_def
        hasQueuedScreenshots_def)
qed

section \<open>Properties of the error classifier\<close>

lemma includes_sublist: "includes_str s k \<longleftrightarrow> sublist k s"
  by (induction s) (simp_all add: sublist_Cons_right)

text \<open>
  C6. A failure is classified as a multimodal rejection exactly when it has a message
  whose lower-case form contains one of the markers vision, image, multimodal,
  unsupported, image_url, 400, invalid, not supported as a contiguous substring; a
  message that contains none of them, and a failure without a message, is never
  classified so.
\<close>

theorem C6_multimodal_classification:
  "isMultimodalError err \<longleftrightarrow>
     (\<exists>m. message err = Some m \<and>
        (\<exists>k \<in> {''vision'', ''image'', ''multimodal'', ''unsupported'', ''image_url'',
                ''400'', ''invalid'', ''not supported''}.
           \<exists>before after. toLowerCase m = before @ k @ after))"
proof (cases "message err")
  case None
  then show ?thesis
    by (simp add: isMultimodalError_def)
next
  case (Some m)
  then show ?thesis
    unfolding isMultimodalError_def Let_def includes_sublist sublist_def
    by (simp only: option.simps bex_simps insert_iff empty_iff simp_thms ex_simps)
qed

theorem C6_multimodal_witness:
  "isMultimodalError (Error (Some ''Bad Request (400)''))
   \<and> \<not> isMultimodalError (Error (Some ''socket hang up''))"
proof -
  have a: "toLowerCase ''Bad Request (400)'' = ''bad request ('' @ ''400'' @ '')''"
    by (simp add: toLowerCase_def toLowerCase_char_def char_of_eq_iff)
  have b: "toLowerCase ''socket hang up'' = ''socket hang up''"
    by (simp add: toLowerCase_def toLowerCase_char_def char_of_eq_iff)
  have c: "\<not> isMultimodalError (Error (Some ''socket hang up''))"
    by (simp add: isMultimodalError_def b)
  have "\<exists>m. message (Error (Some ''Bad Request (400)'')) = Some m \<and>
        (\<exists>k \<in> {''vision'', ''image'', ''multimodal'', ''unsupported'', ''image_url'',
                ''400'', ''invalid'', ''not supported''}.
           \<exists>before after. toLowerCase m = before @ k @ after)"
  proof (intro exI conjI bexI)
    show "message (Error (Some ''Bad Request (400)'')) = Some ''Bad Request (400)''"
      by (simp only: js_error.sel)
    show "toLowerCase ''Bad Request (400)'' = ''bad request ('' @ ''400'' @ '')''"
      by (rule a)
    show "''400'' \<in> {''vision'', ''image'', ''multimodal'', ''unsupported'', ''image_url'',
                ''400'', ''invalid'', ''not supported''}"
      by simp
  qed
  then have d: "isMultimodalError (Error (Some ''Bad Request (400)''))"
    by (rule C6_multimodal_classification [THEN iffD2])
  from d c show ?thesis by (rule conjI)
qed

section \<open>Properties of the prompt context\<close>

lemma slice_from_minus_30: "slice_from (- 30) xs = most_recent 30 xs"
  by (simp add: slice_from_def most_recent_def Let_def nat_diff_distrib' max_def)

text \<open>
  C10. The prompt context of a history is the newline-joined text of its most recent
  30 entries: whatever precedes the last 30 entries has no influence on it, a history
  of at most 30 entries is joined whole, and an empty or missing history gives the
  fixed text 'No conversation history available.'.
\<close>

theorem C10_history_context_last_30:
  "formatConversationForPrompt None = ''No conversation history available.''
   \<and> formatConversationForPrompt (Some []) = ''No conversation history available.''
   \<and> (texts \<noteq> [] \<longrightarrow>
        formatConversationForPrompt (Some texts) = join [CHR 0x0A] (most_recent 30 texts))
   \<and> (texts \<noteq> [] \<and> length texts \<le> 30 \<longrightarrow>
        formatConversationForPrompt (Some texts) = join [CHR 0x0A] texts)
   \<and> (length recent = 30 \<longrightarrow>
        formatConversationForPrompt (Some (older @ recent)) =
        formatConversationForPrompt (Some recent))"
proof -
  have a: "texts \<noteq> [] \<longrightarrow>
        formatConversationForPrompt (Some texts) = join [CHR 0x0A] (most_recent 30 texts)"
    by (simp add: formatConversationForPrompt_def slice_from_minus_30)
  have b: "texts \<noteq> [] \<and> length texts \<le> 30 \<longrightarrow>
        formatConversationForPrompt (Some texts) = join [CHR 0x0A] texts"
    using a by (simp add: most_recent_def)
  have c: "length recent = 30 \<longrightarrow>
        formatConversationForPrompt (Some (older @ recent)) =
        formatConversationForPrompt (Some recent)"
    by (auto simp: formatConversationForPrompt_def slice_from_minus_30 most_recent_def)
  show ?thesis
    using a b c by (simp add: formatConversationForPrompt_def)
qed

theorem C10_history_witness:
  "[''a'', ''b''] \<noteq> [] \<and> length [''a'', ''b''] \<le> 30
   \<and> formatConversationForPrompt (Some [''a'', ''b'']) = join [CHR 0x0A] [''a'', ''b'']
   \<and> length (replicate 30 ''x'') = 30
   \<and> formatConversationForPrompt (Some ([''old''] @ replicate 30 ''x'')) =
       formatConversationForPrompt (Some (replicate 30 ''x''))"
proof -
  have h1: "[''a'', ''b''] \<noteq> [] \<and> length [''a'', ''b''] \<le> 30" by simp
  have h2: "length (replicate 30 ''x'') = 30" by simp
  from h1 h2 C10_history_context_last_30 [of "[''a'', ''b'']" "replicate 30 ''x''" "[''old'']"]
  show ?thesis by blast
qed

section \<open>Properties of the stream decoder\<close>

lemma decodeFrame_malformed:
  "parse payload = None \<Longrightarrow> payload \<noteq> ''[DONE]'' \<Longrightarrow>
   decodeFrame parse (''data: '' @ payload) = Skipped"
  by (simp add: decodeFrame_def startsWith_def substring_def)

lemma processLines_skip:
  "decodeFrame parse line = Skipped \<Longrightarrow>
   processLines parse (before @ line # after) full st = processLines parse (before @ after) full st"
proof (induction before arbitrary: full st)
  case Nil
  then show ?case by simp
next
  case (Cons l ls)
  then show ?case by (cases "decodeFrame parse l") (simp_all add: Let_def)
qed

lemma readLoop_same_lines:
  "processLines parse (chunkLines c) = processLines parse (chunkLines c') \<Longrightarrow>
   readLoop parse (earlier @ Value c # rest) full st = readLoop parse (earlier @ Value c' # rest) full st"
proof (induction earlier arbitrary: full st)
  case Nil
  then show ?case by (simp add: Let_def)
next
  case (Cons r rs)
  then show ?case by (cases r) (simp_all add: Let_def split: prod.splits)
qed


text \<open>
  C9. A \<^verbatim>\<open>data:\<close> frame whose payload is not the terminator and is rejected by
  \<^verbatim>\<open>JSON.parse\<close> is skipped without a trace: the lines of a chunk are processed as if
  the frame were absent (same accumulated text, same state, same publications, the
  following frames still decoded), and the whole stream is processed as if the chunk
  did not contain it.
\<close>

theorem C9_malformed_frame_is_skipped:
  assumes "parse payload = None" and "payload \<noteq> ''[DONE]''"
  shows "decodeFrame parse (''data: '' @ payload) = Skipped
    \<and> processLines parse (before @ (''data: '' @ payload) # after) full st
        = processLines parse (before @ after) full st
    \<and> (chunkLines c = before @ (''data: '' @ payload) # after \<and> chunkLines c' = before @ after
        \<longrightarrow> processStream parse (earlier @ Value c # rest) alive sid aborted st
            = processStream parse (earlier @ Value c' # rest) alive sid aborted st)"
proof -
  have skipped: "decodeFrame parse (''data: '' @ payload) = Skipped"
    using assms by (rule decodeFrame_malformed)
  have lines: "processLines parse (before @ (''data: '' @ payload) # after) full' st'
        = processLines parse (before @ after) full' st'" for full' st'
    using skipped by (rule processLines_skip)
  have stream: "chunkLines c = before @ (''data: '' @ payload) # after \<and> chunkLines c' = before @ after
        \<longrightarrow> processStream parse (earlier @ Value c # rest) alive sid aborted st
            = processStream parse (earlier @ Value c' # rest) alive sid aborted st"
  proof (intro impI, elim conjE)
    assume c: "chunkLines c = before @ (''data: '' @ payload) # after"
      and c': "chunkLines c' = before @ after"
    have "processLines parse (chunkLines c) = processLines parse (chunkLines c')"
      unfolding c c' by (intro ext) (rule lines)
    then have "readLoop parse (earlier @ Value c # rest) full' st'
        = readLoop parse (earlier @ Value c' # rest) full' st'" for full' st'
      by (rule readLoop_same_lines)
    then show "processStream parse (earlier @ Value c # rest) alive sid aborted st
            = processStream parse (earlier @ Value c' # rest) alive sid aborted st"
      by (simp only: processStream_def)
  qed
  show ?thesis
    by (intro conjI skipped lines stream)
qed

lemma publishedAnswers_append:
  "publishedAnswers (xs @ ys) = publishedAnswers xs @ publishedAnswers ys"
  by (induction xs rule: publishedAnswers.induct) simp_all

lemma providerCalls_append:
  "providerCalls (xs @ ys) = providerCalls xs @ providerCalls ys"
  by (induction xs rule: providerCalls.induct) simp_all

lemma prefix_chain_join:
  "sorted_wrt prefix (a # xs @ [b]) \<Longrightarrow> sorted_wrt prefix (b # ys @ [c])
   \<Longrightarrow> sorted_wrt prefix (a # xs @ ys @ [c])"
  by (auto simp: sorted_wrt_append intro: prefix_order.trans)

lemma processLines_chain:
  "processLines parse lines full st = (fin, full', st', evs)
   \<Longrightarrow> sorted_wrt prefix (full # publishedAnswers evs @ [full'])"
proof (induction lines arbitrary: full st fin full' st' evs)
  case Nil
  then show ?case by simp
next
  case (Cons l ls)
  show ?case
  proof (cases "decodeFrame parse l")
    case Terminator
    with Cons.prems show ?thesis by simp
  next
    case Skipped
    with Cons.prems Cons.IH show ?thesis by simp
  next
    case (Delta token)
    obtain fin1 full1 st1 evs1 where rest:
      "processLines parse ls (full @ token) (st\<lparr>currentResponse := full @ token\<rparr>)
         = (fin1, full1, st1, evs1)"
      by (metis prod_cases4)
    from Cons.prems Delta rest have eq: "full' = full1"
      "evs = Broadcast (st\<lparr>currentResponse := full @ token\<rparr>) # evs1"
      by (simp_all add: Let_def)
    from Cons.IH [OF rest]
    have ih: "sorted_wrt prefix ((full @ token) # publishedAnswers evs1 @ [full1])" .
    then have "\<forall>y \<in> set (publishedAnswers evs1 @ [full1]). prefix full y"
      by (auto dest: append_prefixD)
    with ih show ?thesis
      unfolding eq by simp
  qed
qed

lemma readLoop_chain:
  "readLoop parse reader full st = (ex, full', st', evs)
   \<Longrightarrow> sorted_wrt prefix (full # publishedAnswers evs @ [full'])"
proof (induction reader arbitrary: full st ex full' st' evs)
  case Nil
  then show ?case by simp
next
  case (Cons r rs)
  show ?case
  proof (cases r)
    case (ReadThrows e)
    with Cons.prems show ?thesis by simp
  next
    case (Value chunk)
    obtain fin1 full1 st1 evs1 where lines:
      "processLines parse (chunkLines chunk) full st = (fin1, full1, st1, evs1)"
      by (metis prod_cases4)
    have c1: "sorted_wrt prefix (full # publishedAnswers evs1 @ [full1])"
      using lines by (rule processLines_chain)
    show ?thesis
    proof (cases fin1)
      case True
      with Cons.prems Value lines c1 show ?thesis by (simp add: Let_def)
    next
      case False
      obtain ex2 full2 st2 evs2 where rest:
        "readLoop parse rs full1 st1 = (ex2, full2, st2, evs2)"
        by (metis prod_cases4)
      from Cons.prems Value lines False rest have eq: "full' = full2" "evs = evs1 @ evs2"
        by (simp_all add: Let_def)
      have c2: "sorted_wrt prefix (full1 # publishedAnswers evs2 @ [full2])"
        using rest by (rule Cons.IH)
      from prefix_chain_join [OF c1 c2] show ?thesis
        unfolding eq by (simp add: publishedAnswers_append)
    qed
  qed
qed

lemma processLines_state:
  "processLines parse lines full st = (fin, full', st', evs)
   \<Longrightarrow> (\<exists>answer. st' = st\<lparr>currentResponse := answer\<rparr>) \<and> (\<forall>ev \<in> set evs. \<exists>s. ev = Broadcast s)"
proof (induction lines arbitrary: full st fin full' st' evs)
  case Nil
  then show ?case by (auto intro: exI [of _ "currentResponse st"])
next
  case (Cons l ls)
  show ?case
  proof (cases "decodeFrame parse l")
    case Terminator
    with Cons.prems show ?thesis by (auto intro: exI [of _ "currentResponse st"])
  next
    case Skipped
    with Cons.prems Cons.IH show ?thesis by simp
  next
    case (Delta token)
    obtain fin1 full1 st1 evs1 where rest:
      "processLines parse ls (full @ token) (st\<lparr>currentResponse := full @ token\<rparr>)
         = (fin1, full1, st1, evs1)"
      by (metis prod_cases4)
    from Cons.prems Delta rest have eq: "st' = st1"
      "evs = Broadcast (st\<lparr>currentResponse := full @ token\<rparr>) # evs1"
      by (simp_all add: Let_def)
    from Cons.IH [OF rest] show ?thesis
      unfolding eq by auto
  qed
qed

lemma readLoop_state:
  "readLoop parse reader full st = (ex, full', st', evs)
   \<Longrightarrow> (\<exists>answer. st' = st\<lparr>currentResponse := answer\<rparr>) \<and> (\<forall>ev \<in> set evs. \<exists>s. ev = Broadcast s)"
proof (induction reader arbitrary: full st ex full' st' evs)
  case Nil
  then show ?case by (auto intro: exI [of _ "currentResponse st"])
next
  case (Cons r rs)
  show ?case
  proof (cases r)
    case (ReadThrows e)
    with Cons.prems show ?thesis by (auto intro: exI [of _ "currentResponse st"])
  next
    case (Value chunk)
    obtain fin1 full1 st1 evs1 where lines:
      "processLines parse (chunkLines chunk) full st = (fin1, full1, st1, evs1)"
      by (metis prod_cases4)
    note s1 = processLines_state [OF lines]
    show ?thesis
    proof (cases fin1)
      case True
      with Cons.prems Value lines s1 show ?thesis by (simp add: Let_def)
    next
      case False
      obtain ex2 full2 st2 evs2 where rest:
        "readLoop parse rs full1 st1 = (ex2, full2, st2, evs2)"
        by (metis prod_cases4)
      from Cons.prems Value lines False rest have eq: "st' = st2" "evs = evs1 @ evs2"
        by (simp_all add: Let_def)
      from Cons.IH [OF rest] s1 show ?thesis
        unfolding eq by auto
    qed
  qed
qed

lemma broadcasts_no_providerCalls:
  "\<forall>ev \<in> set evs. \<exists>s. ev = Broadcast s \<Longrightarrow> providerCalls evs = []"
  by (induction evs rule: providerCalls.induct) auto

text \<open>
  C7. However the read loop ends (the reader is done, as after a cancellation; the
  terminator frame; a failed read, with the signal aborted or not), the cleanup runs:
  the streaming flag is reset, the text accumulated up to the exit becomes the final
  answer and is published, every answer published during the stream is a prefix of
  it, and it is handed to the conversation store exactly when it is not empty. The
  cleanup does the same on whatever state the service holds when it runs.
\<close>

theorem C7_cleanup_runs_on_every_exit:
  assumes "readLoop parse reader [] (st\<lparr>isLoading := False, isStreaming := True\<rparr>)
             = (exit, accumulated, st2, published)"
  shows "(\<exists>st' earlier.
           processStream parse reader alive sessionId aborted st
             = (st', earlier @ Broadcast st'
                  # (if accumulated \<noteq> [] then [AddAiMessage sessionId Assistant accumulated]
                     else []))
           \<and> \<not> isStreaming st' \<and> \<not> isLoading st'
           \<and> currentResponse st' = accumulated
           \<and> (\<forall>answer \<in> set (publishedAnswers published). prefix answer accumulated)
           \<and> AddAiMessage sessionId Assistant accumulated \<notin> set earlier)
       \<and> streamCleanup sessionId accumulated other
           = (other\<lparr>isStreaming := False, currentResponse := accumulated\<rparr>,
              Broadcast (other\<lparr>isStreaming := False, currentResponse := accumulated\<rparr>)
                # (if accumulated \<noteq> [] then [AddAiMessage sessionId Assistant accumulated]
                   else []))"
proof -
  let ?st1 = "st\<lparr>isLoading := False, isStreaming := True\<rparr>"
  let ?caught = "case exit of
                   ReadFailed streamError \<Rightarrow>
                     if aborted then []
                     else if alive then [StreamError (message streamError)]
                     else []
                 | _ \<Rightarrow> []"
  let ?st3 = "st2\<lparr>isStreaming := False, currentResponse := accumulated\<rparr>"
  let ?earlier = "Broadcast ?st1 # published @ ?caught"
  from readLoop_state [OF assms] obtain answer where st2: "st2 = ?st1\<lparr>currentResponse := answer\<rparr>"
    and only: "\<forall>ev \<in> set published. \<exists>s. ev = Broadcast s"
    by blast
  have run: "processStream parse reader alive sessionId aborted st
      = (?st3, ?earlier @ Broadcast ?st3
           # (if accumulated \<noteq> [] then [AddAiMessage sessionId Assistant accumulated] else []))"
    using assms by (simp add: processStream_def streamCleanup_def Let_def)
  have flags: "\<not> isStreaming ?st3 \<and> \<not> isLoading ?st3 \<and> currentResponse ?st3 = accumulated"
    by (simp add: st2)
  from readLoop_chain [OF assms]
  have chain: "\<forall>answer \<in> set (publishedAnswers published). prefix answer accumulated"
    by (auto simp: sorted_wrt_append)
  have fresh: "AddAiMessage sessionId Assistant accumulated \<notin> set ?earlier"
    using only by (auto split: stream_exit.splits)
  have cleanup: "streamCleanup sessionId accumulated other
           = (other\<lparr>isStreaming := False, currentResponse := accumulated\<rparr>,
              Broadcast (other\<lparr>isStreaming := False, currentResponse := accumulated\<rparr>)
                # (if accumulated \<noteq> [] then [AddAiMessage sessionId Assistant accumulated]
                   else []))"
    by (simp add: streamCleanup_def Let_def)
  from run flags chain fresh have "\<exists>st' earlier.
           processStream parse reader alive sessionId aborted st
             = (st', earlier @ Broadcast st'
                  # (if accumulated \<noteq> [] then [AddAiMessage sessionId Assistant accumulated]
                     else []))
           \<and> \<not> isStreaming st' \<and> \<not> isLoading st'
           \<and> currentResponse st' = accumulated
           \<and> (\<forall>answer \<in> set (publishedAnswers published). prefix answer accumulated)
           \<and> AddAiMessage sessionId Assistant accumulated \<notin> set earlier"
    by blast
  with cleanup show ?thesis by (rule conjI [rotated])
qed

section \<open>Properties of the orchestrator\<close>

lemma processStream_calls:
  assumes run: "processStream parse reader alive sid aborted st = (st', evs)"
  shows "providerCalls evs = []"
proof -
  obtain exit full st2 published where loop:
    "readLoop parse reader [] (st\<lparr>isLoading := False, isStreaming := True\<rparr>)
       = (exit, full, st2, published)"
    by (metis prod_cases4)
  from readLoop_state [OF loop] have "providerCalls published = []"
    by (blast intro: broadcasts_no_providerCalls)
  with run loop show ?thesis
    by (auto simp: processStream_def streamCleanup_def Let_def providerCalls_append
        split: stream_exit.splits if_splits)
qed

lemma processStream_answers:
  assumes empty: "currentResponse st = []"
    and run: "processStream parse reader alive sid aborted st = (st', evs)"
  shows "sorted_wrt prefix (publishedAnswers evs)"
proof -
  obtain exit full st2 published where loop:
    "readLoop parse reader [] (st\<lparr>isLoading := False, isStreaming := True\<rparr>)
       = (exit, full, st2, published)"
    by (metis prod_cases4)
  from readLoop_chain [OF loop]
  have "sorted_wrt prefix (publishedAnswers published @ [full])"
    by simp
  with run loop empty show ?thesis
    by (auto simp: processStream_def streamCleanup_def Let_def publishedAnswers_append
        split: stream_exit.splits if_splits)
qed

lemma streamAttempt_failed:
  "streamChat e n msgs = Inl err \<Longrightarrow>
   streamAttempt e n site msgs sid st = (Inl err, st, [StreamChat msgs])"
  by (simp add: streamAttempt_def)

lemma streamAttempt_opened:
  assumes "streamChat e n msgs = Inr reader"
    and "streamAttempt e n site msgs sid st = (r, st', evs)"
  shows "providerCalls evs = [msgs] \<and> (\<exists>res. r = Inr res)
         \<and> (currentResponse st = [] \<longrightarrow> sorted_wrt prefix (publishedAnswers evs))"
proof (cases "askWinAlive e site")
  case False
  with assms show ?thesis by (auto simp: streamAttempt_def)
next
  case True
  obtain st1 evs1 where ps:
    "processStream (jsonParse e) reader (askWinAlive e AtStreamError) sid (signalAborted e) st
       = (st1, evs1)"
    by (metis prod.exhaust)
  from assms True ps have eq: "r = Inr Success" "evs = StreamChat msgs # evs1"
    by (simp_all add: streamAttempt_def)
  from processStream_calls [OF ps] processStream_answers [OF _ ps] show ?thesis
    unfolding eq by simp
qed

lemma streamAttempt_result:
  assumes "streamAttempt e n site msgs sid st = (r, st', evs)"
  shows "providerCalls evs = [msgs]
         \<and> (\<forall>err. r = Inl err \<longleftrightarrow> streamChat e n msgs = Inl err)
         \<and> (\<forall>err. r = Inl err \<longrightarrow> st' = st \<and> publishedAnswers evs = [])
         \<and> (currentResponse st = [] \<longrightarrow> sorted_wrt prefix (publishedAnswers evs))"
proof (cases "streamChat e n msgs")
  case (Inl err)
  from assms streamAttempt_failed [OF Inl, of site sid st] show ?thesis
    using Inl by auto
next
  case (Inr reader)
  from streamAttempt_opened [OF Inr assms] show ?thesis
    using Inr by auto
qed

lemma streamWithFallback_result:
  assumes run: "streamWithFallback e sp ut shots sid st = (r, st', evs)"
  shows "(\<forall>reader. streamChat e 0 (multimodalMessages sp ut shots) = Inr reader \<longrightarrow>
            providerCalls evs = [multimodalMessages sp ut shots] \<and> (\<exists>res. r = Inr res))
       \<and> (\<forall>err. streamChat e 0 (multimodalMessages sp ut shots) = Inl err
                 \<and> shots \<noteq> [] \<and> isMultimodalError err \<longrightarrow>
            providerCalls evs = [multimodalMessages sp ut shots, textOnlyMessages sp ut]
            \<and> (\<forall>err2. streamChat e 1 (textOnlyMessages sp ut) = Inl err2 \<longrightarrow> r = Inl err2))
       \<and> (\<forall>err. streamChat e 0 (multimodalMessages sp ut shots) = Inl err
                 \<and> \<not> (shots \<noteq> [] \<and> isMultimodalError err) \<longrightarrow>
            providerCalls evs = [multimodalMessages sp ut shots] \<and> r = Inl err)
       \<and> (\<forall>err. r = Inl err \<longrightarrow> st' = st \<and> publishedAnswers evs = [])
       \<and> (currentResponse st = [] \<longrightarrow> sorted_wrt prefix (publishedAnswers evs))"
proof -
  obtain r1 st1 evs1 where first:
    "streamAttempt e 0 AtResponse (multimodalMessages sp ut shots) sid st = (r1, st1, evs1)"
    by (metis prod_cases3)
  note f = streamAttempt_result [OF first]
  show ?thesis
  proof (cases r1)
    case (Inr res)
    with run first have "r = Inr res" "st' = st1" "evs = evs1"
      by (simp_all add: streamWithFallback_def)
    with f Inr show ?thesis by auto
  next
    case (Inl err)
    with f have st1: "st1 = st" and none: "publishedAnswers evs1 = []"
      and failed: "streamChat e 0 (multimodalMessages sp ut shots) = Inl err"
      by auto
    show ?thesis
    proof (cases "shots \<noteq> [] \<and> isMultimodalError err")
      case False
      with run first Inl have "r = Inl err" "st' = st1" "evs = evs1"
        by (auto simp: streamWithFallback_def)
      with f Inl False failed show ?thesis by auto
    next
      case True
      obtain r2 st2 evs2 where second:
        "streamAttempt e 1 AtFallback (textOnlyMessages sp ut) sid st = (r2, st2, evs2)"
        by (metis prod_cases3)
      note g = streamAttempt_result [OF second]
      from run first Inl True second st1 have eq: "r = r2" "st' = st2" "evs = evs1 @ evs2"
        by (auto simp: streamWithFallback_def)
      from f g True failed none show ?thesis
        unfolding eq by (auto simp: providerCalls_append publishedAnswers_append)
    qed
  qed
qed

lemma selectScreenshots_result:
  "selectScreenshots e svc = (shots, queued, svc', evs)
   \<Longrightarrow> state svc' = state svc \<and> abortController svc' = abortController svc
       \<and> providerCalls evs = [] \<and> publishedAnswers evs = []"
  by (auto simp: selectScreenshots_def getAndClearScreenshotQueue_def
      split: if_splits capture_result.splits)

lemma processMessage_result:
  assumes run: "processMessage e userPrompt history svc = (r, svc', evs)"
  shows "(providerCalls evs = [] \<and> publishedAnswers evs = [] \<and> state svc' = state svc
          \<and> (\<exists>err. r = Inl err))
       \<or> (\<exists>sp ut shots sid evs0 evs1.
            streamWithFallback e sp ut shots sid (state svc) = (r, state svc', evs1)
            \<and> evs = evs0 @ evs1 \<and> providerCalls evs0 = [] \<and> publishedAnswers evs0 = [])"
proof (cases "getOrCreateActive e")
  case (Inl err)
  with run show ?thesis by (auto simp: processMessage_def)
next
  case session: (Inr sessionId)
  show ?thesis
  proof (cases "addUserMessage e")
    case (Some err)
    with run session show ?thesis by (auto simp: processMessage_def Let_def)
  next
    case stored: None
    show ?thesis
    proof (cases "getCurrentModelInfo e")
      case (Inl err)
      with run session stored show ?thesis by (auto simp: processMessage_def Let_def)
    next
      case info: (Inr modelInfo)
      show ?thesis
      proof (cases "case modelInfo of
                      None \<Rightarrow> True
                    | Some info \<Rightarrow> (case apiKey info of None \<Rightarrow> True | Some k \<Rightarrow> k = [])")
        case True
        with run session stored info show ?thesis
          by (auto simp: processMessage_def Let_def)
      next
        case configured: False
        obtain shots queued svc1 captured where sel:
          "selectScreenshots e svc = (shots, queued, svc1, captured)"
          by (metis prod_cases4)
        note s = selectScreenshots_result [OF sel]
        show ?thesis
        proof (cases "createStreamingLLM e")
          case (Some err)
          with run session stored info configured sel s show ?thesis
            by (auto simp: processMessage_def Let_def)
        next
          case factory: None
          let ?sp = "chooseSystemPrompt queued shots (formatConversationForPrompt history)"
          let ?ut = "chooseUserText userPrompt queued shots"
          obtain r1 st1 evs1 where fb:
            "streamWithFallback e ?sp ?ut shots sessionId (state svc1) = (r1, st1, evs1)"
            by (metis prod_cases3)
          from run session stored info configured sel factory fb
          have eq: "r = r1" "svc' = svc1\<lparr>state := st1\<rparr>"
            "evs = ([AddAiMessage sessionId User (trim userPrompt)] @ captured) @ evs1"
            by (simp_all add: processMessage_def Let_def)
          have "streamWithFallback e ?sp ?ut shots sessionId (state svc) = (r, state svc', evs1)"
            using fb s by (simp add: eq)
          moreover have "providerCalls ([AddAiMessage sessionId User (trim userPrompt)] @ captured) = []"
            "publishedAnswers ([AddAiMessage sessionId User (trim userPrompt)] @ captured) = []"
            using s by simp_all
          ultimately show ?thesis
            using eq(3) by blast
        qed
      qed
    qed
  qed
qed

lemma sendMessage_run:
  assumes run: "sendMessage e userPrompt history svc = (result, svc', evs)"
    and body: "processMessage e userPrompt history
                 (svc\<lparr>state := loadingState userPrompt (state svc),
                      abortController := Some (newController e)\<rparr>) = (r, svc2, evs0)"
  shows "\<exists>aborted finished.
           evs = RequestVisibility True # Broadcast (loadingState userPrompt (state svc))
                   # aborted @ evs0 @ finished
           \<and> aborted = (case abortController svc of
                          None \<Rightarrow> []
                        | Some previous \<Rightarrow> [Abort previous ''New request received.''])
           \<and> providerCalls finished = []
           \<and> (case r of
                 Inr res \<Rightarrow> result = res \<and> svc' = svc2 \<and> finished = []
               | Inl err \<Rightarrow>
                   result = Failure (message err)
                   \<and> svc' = svc2\<lparr>state := idleAfterError (state svc2)\<rparr>
                   \<and> publishedAnswers finished = [currentResponse (state svc2)])"
  using run body
  by (cases r; cases "askWinAlive e AtError")
    (auto simp: sendMessage_def beginRequest_def finishRequest_def Let_def idleAfterError_def)

lemma imageParts_texts: "partTexts (imageParts shots) = []"
  by (induction shots) (auto simp: imageParts_def split: option.splits)

lemma payload_multimodal:
  "payloadSystem (multimodalMessages sp ut shots) = [sp]"
  "payloadQuestion (multimodalMessages sp ut shots) = [''User Request: '' @ ut]"
  "payloadImages (multimodalMessages sp ut shots) = partImages (imageParts shots)"
  by (simp_all add: multimodalMessages_def imageParts_texts)

lemma payload_textOnly:
  "payloadSystem (textOnlyMessages sp ut) = [sp]"
  "payloadQuestion (textOnlyMessages sp ut) = [''User Request: '' @ ut]"
  "payloadImages (textOnlyMessages sp ut) = []"
  by (simp_all add: textOnlyMessages_def)

lemma aborted_no_calls:
  "providerCalls (case c of None \<Rightarrow> [] | Some previous \<Rightarrow> [Abort previous reason]) = []"
  "publishedAnswers (case c of None \<Rightarrow> [] | Some previous \<Rightarrow> [Abort previous reason]) = []"
  by (cases c; simp)+

lemma request_run:
  assumes run: "sendMessage e userPrompt history svc = (result, svc', evs)
                \<or> sendMessageSuperseding e userPrompt history oldSessionId oldFullResponse svc
                    = (result, svc', evs)"
  shows "\<exists>svc1 started r svc2 evs0 finished.
           processMessage e userPrompt history svc1 = (r, svc2, evs0)
           \<and> evs = started @ evs0 @ finished
           \<and> providerCalls started = [] \<and> providerCalls finished = []
           \<and> (\<forall>res. r = Inr res \<longrightarrow> result = res \<and> svc' = svc2)
           \<and> (\<forall>err. r = Inl err \<longrightarrow>
                 result = Failure (message err)
                 \<and> svc' = svc2\<lparr>state := idleAfterError (state svc2)\<rparr>)"
proof -
  have finish: "\<exists>finished. providerCalls finished = []
          \<and> finishRequest e (r, svc2, evs0)
              = (case r of
                   Inr res \<Rightarrow> (res, svc2, evs0 @ finished)
                 | Inl err \<Rightarrow> (Failure (message err),
                               svc2\<lparr>state := idleAfterError (state svc2)\<rparr>, evs0 @ finished))"
    for r svc2 evs0
    by (cases r; cases "askWinAlive e AtError") (simp_all add: finishRequest_def Let_def)
  have started: "providerCalls (snd (beginRequest e userPrompt svc)) = []"
    by (cases "abortController svc") (simp_all add: beginRequest_def Let_def)
  have cleaned: "providerCalls (snd (streamCleanup oldSessionId oldFullResponse st)) = []" for st
    by (simp add: streamCleanup_def Let_def)
  from run show ?thesis
  proof
    assume iso: "sendMessage e userPrompt history svc = (result, svc', evs)"
    obtain r svc2 evs0 where body:
      "processMessage e userPrompt history (fst (beginRequest e userPrompt svc)) = (r, svc2, evs0)"
      by (metis prod_cases3)
    from finish [of r svc2 evs0] obtain finished where
      fin: "providerCalls finished = []"
      and fr: "finishRequest e (r, svc2, evs0)
              = (case r of
                   Inr res \<Rightarrow> (res, svc2, evs0 @ finished)
                 | Inl err \<Rightarrow> (Failure (message err),
                               svc2\<lparr>state := idleAfterError (state svc2)\<rparr>, evs0 @ finished))"
      by blast
    from iso body fr have
      "evs = snd (beginRequest e userPrompt svc) @ evs0 @ finished
       \<and> (\<forall>res. r = Inr res \<longrightarrow> result = res \<and> svc' = svc2)
       \<and> (\<forall>err. r = Inl err \<longrightarrow>
                 result = Failure (message err)
                 \<and> svc' = svc2\<lparr>state := idleAfterError (state svc2)\<rparr>)"
      by (cases r) (auto simp: sendMessage_def split: prod.splits)
    with body started fin show ?thesis by blast
  next
    assume sup: "sendMessageSuperseding e userPrompt history oldSessionId oldFullResponse svc
                    = (result, svc', evs)"
    let ?svc1 = "fst (beginRequest e userPrompt svc)"
    let ?cl = "streamCleanup oldSessionId oldFullResponse (state ?svc1)"
    obtain r svc2 evs0 where body:
      "processMessage e userPrompt history (?svc1\<lparr>state := fst ?cl\<rparr>) = (r, svc2, evs0)"
      by (metis prod_cases3)
    from finish [of r svc2 evs0] obtain finished where
      fin: "providerCalls finished = []"
      and fr: "finishRequest e (r, svc2, evs0)
              = (case r of
                   Inr res \<Rightarrow> (res, svc2, evs0 @ finished)
                 | Inl err \<Rightarrow> (Failure (message err),
                               svc2\<lparr>state := idleAfterError (state svc2)\<rparr>, evs0 @ finished))"
      by blast
    from sup body fr have
      "evs = (snd (beginRequest e userPrompt svc) @ snd ?cl) @ evs0 @ finished
       \<and> (\<forall>res. r = Inr res \<longrightarrow> result = res \<and> svc' = svc2)
       \<and> (\<forall>err. r = Inl err \<longrightarrow>
                 result = Failure (message err)
                 \<and> svc' = svc2\<lparr>state := idleAfterError (state svc2)\<rparr>)"
      by (cases r) (auto simp: sendMessageSuperseding_def split: prod.splits)
    moreover have "providerCalls (snd (beginRequest e userPrompt svc) @ snd ?cl) = []"
      using started cleaned by (simp add: providerCalls_append)
    ultimately show ?thesis using body fin by blast
  qed
qed


text \<open>
  C1. When the first provider call of a submission carried at least one image and
  failed: if the failure is classified as a multimodal rejection, the provider is
  called exactly once more, with a payload that has no image and the same system
  prompt and the same request text, and a failure of that second call ends the
  submission with that error and an idle state; if the failure is not classified so,
  the provider is not called again and the submission ends with the first error.
  This holds whether or not the submission supersedes a streaming request.
\<close>

theorem C1_one_text_only_retry:
  assumes run: "sendMessage e userPrompt history svc = (result, svc', evs)
                \<or> sendMessageSuperseding e userPrompt history oldSessionId oldFullResponse svc
                    = (result, svc', evs)"
    and called: "providerCalls evs = first # later"
    and images: "payloadImages first \<noteq> []"
    and failed: "streamChat e 0 first = Inl err"
  shows "(isMultimodalError err \<longrightarrow>
            (\<exists>retry. later = [retry]
               \<and> payloadImages retry = []
               \<and> payloadSystem retry = payloadSystem first
               \<and> payloadQuestion retry = payloadQuestion first
               \<and> (\<forall>err2. streamChat e 1 retry = Inl err2 \<longrightarrow>
                     result = Failure (message err2)
                     \<and> \<not> isLoading (state svc') \<and> \<not> isStreaming (state svc'))))
       \<and> (\<not> isMultimodalError err \<longrightarrow>
            later = [] \<and> result = Failure (message err)
            \<and> \<not> isLoading (state svc') \<and> \<not> isStreaming (state svc'))"
proof -
  from request_run [OF run] obtain svc1 started r svc2 evs0 finished where
    body: "processMessage e userPrompt history svc1 = (r, svc2, evs0)"
    and evs: "evs = started @ evs0 @ finished"
    and quiet: "providerCalls started = []" "providerCalls finished = []"
    and failure_result: "\<forall>err. r = Inl err \<longrightarrow>
                 result = Failure (message err)
                 \<and> svc' = svc2\<lparr>state := idleAfterError (state svc2)\<rparr>"
    by blast
  have calls0: "providerCalls evs0 = first # later"
    using called quiet unfolding evs by (simp add: providerCalls_append)
  with processMessage_result [OF body] obtain sp ut shots sid evsA evsB where
    fb: "streamWithFallback e sp ut shots sid (state svc1) = (r, state svc2, evsB)"
    and split: "evs0 = evsA @ evsB" and noneA: "providerCalls evsA = []"
    by auto
  from calls0 split noneA have callsB: "providerCalls evsB = first # later"
    by (simp add: providerCalls_append)
  note sw = streamWithFallback_result [OF fb]
  let ?m1 = "multimodalMessages sp ut shots" and ?m2 = "textOnlyMessages sp ut"
  have first: "first = ?m1"
  proof (cases "streamChat e 0 ?m1")
    case (Inr reader)
    with sw callsB show ?thesis by auto
  next
    case (Inl err1)
    with sw callsB show ?thesis
      by (cases "shots \<noteq> [] \<and> isMultimodalError err1") auto
  qed
  from images have shots: "shots \<noteq> []"
    unfolding first by (auto simp: payload_multimodal imageParts_def)
  from failed have failed1: "streamChat e 0 ?m1 = Inl err"
    by (simp add: first)
  have failure: "result = Failure (message x)
      \<and> \<not> isLoading (state svc') \<and> \<not> isStreaming (state svc')" if "r = Inl x" for x
    using failure_result that by (simp add: idleAfterError_def)
  show ?thesis
  proof (cases "isMultimodalError err")
    case True
    with sw failed1 shots callsB have later: "later = [?m2]"
      and second: "\<forall>err2. streamChat e 1 ?m2 = Inl err2 \<longrightarrow> r = Inl err2"
      by auto
    have "\<forall>err2. streamChat e 1 ?m2 = Inl err2 \<longrightarrow>
             result = Failure (message err2)
             \<and> \<not> isLoading (state svc') \<and> \<not> isStreaming (state svc')"
      using second failure by blast
    with True later show ?thesis
      by (simp add: first payload_multimodal payload_textOnly)
  next
    case False
    with sw failed1 callsB have "later = []" "r = Inl err"
      by auto
    with False failure show ?thesis by simp
  qed
qed

subsection \<open>The concrete run\<close>

lemmas scenario_eval = chunkLines_def trim_def isWhiteSpace_def decodeFrame_def startsWith_def
  substring_def scenarioParse_def scenarioDelta_def deltaContent_def optionalProp_def Let_def
  scenarioReader_def scenarioProvider_def scenarioEnv_def scenarioService_def
  scenarioQuestion_def loadingState_def idleAfterError_def
  sendMessage_def beginRequest_def finishRequest_def streamCleanup_def
  processMessage_def selectScreenshots_def hasQueuedScreenshots_def
  getAndClearScreenshotQueue_def chooseSystemPrompt_def chooseUserText_def imageParts_def
  multimodalMessages_def textOnlyMessages_def streamWithFallback_def streamAttempt_def
  processStream_def formatConversationForPrompt_def

lemma scenario_rejection: "isMultimodalError scenarioRejection"
  by (simp add: scenarioRejection_def isMultimodalError_def toLowerCase_def
      toLowerCase_char_def char_of_eq_iff)

lemma scenario_events:
  "scenarioEvents =
    [RequestVisibility True,
     Broadcast (loadingState scenarioQuestion (state scenarioService)),
     Abort 0 ''New request received.'',
     AddAiMessage 7 User scenarioQuestion,
     StreamChat
       (multimodalMessages
          (GetSystemPrompt ''pickle_glass_screenshot_analysis''
             ''No conversation history available.'' False)
          scenarioQuestion (screenshotQueue scenarioService)),
     StreamChat
       (textOnlyMessages
          (GetSystemPrompt ''pickle_glass_screenshot_analysis''
             ''No conversation history available.'' False)
          scenarioQuestion),
     Broadcast ((loadingState scenarioQuestion (state scenarioService))
                  \<lparr>isLoading := False, isStreaming := True\<rparr>),
     Broadcast ((loadingState scenarioQuestion (state scenarioService))
                  \<lparr>isLoading := False, isStreaming := True, currentResponse := ''Hel''\<rparr>),
     Broadcast ((loadingState scenarioQuestion (state scenarioService))
                  \<lparr>isLoading := False, isStreaming := True, currentResponse := ''Hello''\<rparr>),
     Broadcast ((loadingState scenarioQuestion (state scenarioService))
                  \<lparr>isLoading := False, isStreaming := False, currentResponse := ''Hello''\<rparr>),
     AddAiMessage 7 Assistant ''Hello'']"
  unfolding scenarioEvents_def
  by (simp add: scenario_eval scenario_rejection)

lemma scenario_run:
  "sendMessage scenarioEnv scenarioQuestion None scenarioService
     = (fst (sendMessage scenarioEnv scenarioQuestion None scenarioService),
        fst (snd (sendMessage scenarioEnv scenarioQuestion None scenarioService)),
        scenarioEvents)"
  by (simp add: scenarioEvents_def)

lemma scenario_calls:
  "providerCalls scenarioEvents =
     multimodalMessages
          (GetSystemPrompt ''pickle_glass_screenshot_analysis''
             ''No conversation history available.'' False)
          scenarioQuestion (screenshotQueue scenarioService)
     # [textOnlyMessages
          (GetSystemPrompt ''pickle_glass_screenshot_analysis''
             ''No conversation history available.'' False)
          scenarioQuestion]"
  by (simp add: scenario_events)

lemma scenario_first_rejected:
  "payloadImages (hd (providerCalls scenarioEvents)) \<noteq> []
   \<and> streamChat scenarioEnv 0 (hd (providerCalls scenarioEvents)) = Inl scenarioRejection"
  by (simp add: scenario_calls payload_multimodal imageParts_def scenarioService_def
      scenarioEnv_def scenarioProvider_def)

theorem C1_retry_witness:
  "payloadImages (hd (providerCalls scenarioEvents)) \<noteq> []
   \<and> streamChat scenarioEnv 0 (hd (providerCalls scenarioEvents)) = Inl scenarioRejection
   \<and> isMultimodalError scenarioRejection
   \<and> (\<exists>retry. tl (providerCalls scenarioEvents) = [retry]
         \<and> payloadImages retry = []
         \<and> payloadSystem retry = payloadSystem (hd (providerCalls scenarioEvents))
         \<and> payloadQuestion retry = payloadQuestion (hd (providerCalls scenarioEvents)))"
proof -
  have called: "providerCalls scenarioEvents
      = hd (providerCalls scenarioEvents) # tl (providerCalls scenarioEvents)"
    by (simp add: scenario_calls)
  from scenario_first_rejected
  have images: "payloadImages (hd (providerCalls scenarioEvents)) \<noteq> []"
    and failed: "streamChat scenarioEnv 0 (hd (providerCalls scenarioEvents))
                   = Inl scenarioRejection"
    by simp_all
  from C1_one_text_only_retry [OF disjI1 [OF scenario_run] called images failed]
    scenario_rejection
  have "\<exists>retry. tl (providerCalls scenarioEvents) = [retry]
         \<and> payloadImages retry = []
         \<and> payloadSystem retry = payloadSystem (hd (providerCalls scenarioEvents))
         \<and> payloadQuestion retry = payloadQuestion (hd (providerCalls scenarioEvents))"
    by blast
  with images failed scenario_rejection show ?thesis by blast
qed

section \<open>Order of publication and cancellation\<close>

lemma beginRequest_events:
  "abortController svc = Some previous \<Longrightarrow>
   snd (beginRequest e userPrompt svc)
     = [RequestVisibility True, Broadcast (loadingState userPrompt (state svc)),
        Abort previous ''New request received.'']"
  by (simp add: beginRequest_def Let_def)

text \<open>
  C2, as the code has it. A submission made while an earlier request holds the
  controller (whether or not that request's stream is still being read) first
  requests visibility, then publishes the new loading state, with an empty answer,
  and aborts the earlier request's controller immediately after that publication:
  the loading publication is the second effect and the abort the third, and
  everything else (the earlier stream's cleanup, storing the question, capturing,
  calling the provider, publishing tokens) comes after the abort.
\<close>

theorem C2_loading_published_then_previous_aborted:
  assumes previous: "abortController svc = Some previous"
    and run: "evs = snd (snd (sendMessageSuperseding e userPrompt history oldSessionId
                               oldFullResponse svc))
              \<or> evs = snd (snd (sendMessage e userPrompt history svc))"
  shows "\<exists>rest. evs = RequestVisibility True
                    # Broadcast (loadingState userPrompt (state svc))
                    # Abort previous ''New request received.'' # rest
           \<and> isLoading (loadingState userPrompt (state svc))
           \<and> currentResponse (loadingState userPrompt (state svc)) = []
           \<and> firstIndex publishesLoading evs = 1
           \<and> firstIndex (abortsController previous) evs = 2"
proof -
  have "\<exists>rest. evs = snd (beginRequest e userPrompt svc) @ rest"
    using run
    by (auto simp: sendMessageSuperseding_def sendMessage_def split: prod.splits)
  then obtain rest where
    evs: "evs = RequestVisibility True # Broadcast (loadingState userPrompt (state svc))
                   # Abort previous ''New request received.'' # rest"
    by (auto simp: beginRequest_events [OF previous])
  have "isLoading (loadingState userPrompt (state svc))"
    "currentResponse (loadingState userPrompt (state svc)) = []"
    by (simp_all add: loadingState_def)
  then show ?thesis
    unfolding evs by (simp add: firstIndex_def)
qed

theorem C2_order_witness:
  "abortController scenarioService = Some 0
   \<and> take 3 scenarioSupersedingEvents
       = [RequestVisibility True,
          Broadcast (loadingState scenarioQuestion (state scenarioService)),
          Abort 0 ''New request received.'']"
proof -
  have previous: "abortController scenarioService = Some 0"
    by (simp add: scenarioService_def)
  have run: "scenarioSupersedingEvents
               = snd (snd (sendMessageSuperseding scenarioEnv scenarioQuestion None 7
                             (currentResponse (state scenarioService)) scenarioService))
             \<or> scenarioSupersedingEvents
               = snd (snd (sendMessage scenarioEnv scenarioQuestion None scenarioService))"
    by (simp add: scenarioSupersedingEvents_def)
  from C2_loading_published_then_previous_aborted [OF previous run]
  obtain rest where ev: "scenarioSupersedingEvents = RequestVisibility True
                    # Broadcast (loadingState scenarioQuestion (state scenarioService))
                    # Abort 0 ''New request received.'' # rest"
    by blast
  have "take 3 scenarioSupersedingEvents
       = [RequestVisibility True,
          Broadcast (loadingState scenarioQuestion (state scenarioService)),
          Abort 0 ''New request received.'']"
    by (subst ev) (simp add: numeral_3_eq_3)
  with previous show ?thesis by (rule conjI)
qed

lemma scenario_superseding_events:
  "scenarioSupersedingEvents =
    [RequestVisibility True,
     Broadcast (loadingState scenarioQuestion (state scenarioService)),
     Abort 0 ''New request received.'',
     Broadcast ((loadingState scenarioQuestion (state scenarioService))
                  \<lparr>currentResponse := ''Earlier''\<rparr>),
     AddAiMessage 7 Assistant ''Earlier'',
     AddAiMessage 7 User scenarioQuestion,
     StreamChat
       (multimodalMessages
          (GetSystemPrompt ''pickle_glass_screenshot_analysis''
             ''No conversation history available.'' False)
          scenarioQuestion (screenshotQueue scenarioService)),
     StreamChat
       (textOnlyMessages
          (GetSystemPrompt ''pickle_glass_screenshot_analysis''
             ''No conversation history available.'' False)
          scenarioQuestion),
     Broadcast ((loadingState scenarioQuestion (state scenarioService))
                  \<lparr>isLoading := False, isStreaming := True, currentResponse := ''Earlier''\<rparr>),
     Broadcast ((loadingState scenarioQuestion (state scenarioService))
                  \<lparr>isLoading := False, isStreaming := True, currentResponse := ''Hel''\<rparr>),
     Broadcast ((loadingState scenarioQuestion (state scenarioService))
                  \<lparr>isLoading := False, isStreaming := True, currentResponse := ''Hello''\<rparr>),
     Broadcast ((loadingState scenarioQuestion (state scenarioService))
                  \<lparr>isLoading := False, isStreaming := False, currentResponse := ''Hello''\<rparr>),
     AddAiMessage 7 Assistant ''Hello'']"
  unfolding scenarioSupersedingEvents_def
  by (simp add: scenario_eval sendMessageSuperseding_def scenario_rejection)

text \<open>
  In the concrete run the earlier request is streaming, and its controller is aborted
  after, not before, the first publication that shows the new request loading.
\<close>

theorem C2_cancel_before_publish_counterexample:
  "isStreaming (state scenarioService)
   \<and> abortController scenarioService = Some 0
   \<and> \<not> (firstIndex (abortsController 0) scenarioSupersedingEvents
          < firstIndex publishesLoading scenarioSupersedingEvents)"
  by (simp add: scenario_superseding_events firstIndex_def scenarioService_def loadingState_def)

section \<open>The toggle entry point\<close>

text \<open>
  C8. While the state shows loading or streaming, the toggle entry point (and the
  shortcut that calls it) returns at once: the state, the controller and the queue are
  exactly as before and no effect is performed, so no request is created and none is
  cancelled.
\<close>

theorem C8_toggle_dropped_while_busy:
  assumes "isLoading (state svc) \<or> isStreaming (state svc)"
  shows "toggleAskButton e inputScreenOnly svc = (svc, [])
         \<and> nextStepShortcut e svc = (svc, [])"
  using assms by (simp add: toggleAskButton_def nextStepShortcut_def)

theorem C8_toggle_witness:
  "(isLoading (state scenarioService) \<or> isStreaming (state scenarioService))
   \<and> toggleAskButton scenarioEnv True scenarioService = (scenarioService, [])
   \<and> nextStepShortcut scenarioEnv scenarioService = (scenarioService, [])"
proof -
  have busy: "isLoading (state scenarioService) \<or> isStreaming (state scenarioService)"
    by (simp add: scenarioService_def)
  from C8_toggle_dropped_while_busy [OF busy, of scenarioEnv True] busy
  show ?thesis by blast
qed

section \<open>Growth of the published answer\<close>

lemma prefix_chain_never_resets:
  assumes "sorted_wrt prefix xs" and "i < j" and "j < length xs" and "xs ! i \<noteq> []"
  shows "xs ! j \<noteq> []"
proof -
  from assms have "prefix (xs ! i) (xs ! j)"
    by (simp add: sorted_wrt_iff_nth_less)
  with assms(4) show ?thesis by auto
qed

text \<open>
  A submission that no other request's code runs into: the answer text starts empty
  (the reset at submission time) and every later published value extends every
  earlier one, so it never shrinks and, once it is not empty, is never published empty
  again. The same holds for the publications of a single stream that starts from the
  empty answer \<^verbatim>\<open>sendMessage\<close> has set.
\<close>

lemma isolated_answer_only_grows:
  assumes run: "sendMessage e userPrompt history svc = (result, svc', evs)"
  shows "publishedAnswers evs \<noteq> []
       \<and> hd (publishedAnswers evs) = []
       \<and> sorted_wrt prefix (publishedAnswers evs)
       \<and> (\<forall>i j. i < j \<and> j < length (publishedAnswers evs) \<and> publishedAnswers evs ! i \<noteq> []
              \<longrightarrow> publishedAnswers evs ! j \<noteq> [])
       \<and> (currentResponse st = [] \<longrightarrow>
            sorted_wrt prefix
              (publishedAnswers (snd (processStream parse reader alive sessionId aborted st))))"
proof -
  let ?svc1 = "svc\<lparr>state := loadingState userPrompt (state svc),
                    abortController := Some (newController e)\<rparr>"
  have empty: "currentResponse (state ?svc1) = []"
    by (simp add: loadingState_def)
  obtain r svc2 evs0 where body:
    "processMessage e userPrompt history ?svc1 = (r, svc2, evs0)"
    by (metis prod_cases3)
  from sendMessage_run [OF run body] obtain aborted' finished where
    evs: "evs = RequestVisibility True # Broadcast (loadingState userPrompt (state svc))
                   # aborted' @ evs0 @ finished"
    and ab: "aborted' = (case abortController svc of
                          None \<Rightarrow> []
                        | Some previous \<Rightarrow> [Abort previous ''New request received.''])"
    and res: "case r of
                 Inr res \<Rightarrow> result = res \<and> svc' = svc2 \<and> finished = []
               | Inl err \<Rightarrow>
                   result = Failure (message err)
                   \<and> svc' = svc2\<lparr>state := idleAfterError (state svc2)\<rparr>
                   \<and> publishedAnswers finished = [currentResponse (state svc2)]"
    by blast
  have answers: "publishedAnswers evs = [] # publishedAnswers evs0 @ publishedAnswers finished"
    unfolding evs ab by (simp add: publishedAnswers_append aborted_no_calls loadingState_def)
  have body_chain: "sorted_wrt prefix (publishedAnswers evs0)"
    and body_failed: "\<forall>err. r = Inl err \<longrightarrow>
                        publishedAnswers evs0 = [] \<and> currentResponse (state svc2) = []"
  proof -
    from processMessage_result [OF body]
    show "sorted_wrt prefix (publishedAnswers evs0)"
    proof
      assume "providerCalls evs0 = [] \<and> publishedAnswers evs0 = []
              \<and> state svc2 = state ?svc1 \<and> (\<exists>err. r = Inl err)"
      then show ?thesis by simp
    next
      assume "\<exists>sp ut shots sid evsA evsB.
            streamWithFallback e sp ut shots sid (state ?svc1) = (r, state svc2, evsB)
            \<and> evs0 = evsA @ evsB \<and> providerCalls evsA = [] \<and> publishedAnswers evsA = []"
      then obtain sp ut shots sid evsA evsB where
        fb: "streamWithFallback e sp ut shots sid (state ?svc1) = (r, state svc2, evsB)"
        and parts: "evs0 = evsA @ evsB" "publishedAnswers evsA = []"
        by blast
      from streamWithFallback_result [OF fb] empty
      have "sorted_wrt prefix (publishedAnswers evsB)" by blast
      with parts show ?thesis by (simp add: publishedAnswers_append)
    qed
    from processMessage_result [OF body]
    show "\<forall>err. r = Inl err \<longrightarrow>
            publishedAnswers evs0 = [] \<and> currentResponse (state svc2) = []"
    proof
      assume "providerCalls evs0 = [] \<and> publishedAnswers evs0 = []
              \<and> state svc2 = state ?svc1 \<and> (\<exists>err. r = Inl err)"
      with empty show ?thesis by simp
    next
      assume "\<exists>sp ut shots sid evsA evsB.
            streamWithFallback e sp ut shots sid (state ?svc1) = (r, state svc2, evsB)
            \<and> evs0 = evsA @ evsB \<and> providerCalls evsA = [] \<and> publishedAnswers evsA = []"
      then obtain sp ut shots sid evsA evsB where
        fb: "streamWithFallback e sp ut shots sid (state ?svc1) = (r, state svc2, evsB)"
        and parts: "evs0 = evsA @ evsB" "publishedAnswers evsA = []"
        by blast
      from streamWithFallback_result [OF fb]
      have "\<forall>err. r = Inl err \<longrightarrow> state svc2 = state ?svc1 \<and> publishedAnswers evsB = []"
        by blast
      with parts empty show ?thesis by (simp add: publishedAnswers_append)
    qed
  qed
  have chain: "sorted_wrt prefix (publishedAnswers evs)"
  proof (cases r)
    case (Inr res)
    with res body_chain show ?thesis
      unfolding answers by simp
  next
    case (Inl err)
    with res body_failed show ?thesis
      unfolding answers by simp
  qed
  have never: "\<forall>i j. i < j \<and> j < length (publishedAnswers evs) \<and> publishedAnswers evs ! i \<noteq> []
              \<longrightarrow> publishedAnswers evs ! j \<noteq> []"
    using prefix_chain_never_resets [OF chain] by blast
  have stream: "currentResponse st = [] \<longrightarrow>
            sorted_wrt prefix
              (publishedAnswers (snd (processStream parse reader alive sessionId aborted st)))"
    using processStream_answers [of st parse reader alive sessionId aborted] 
    by (metis prod.collapse)
  from answers chain never stream show ?thesis by simp
qed

lemma isolated_growth_scenario:
  "publishedAnswers scenarioEvents = [[], [], ''Hel'', ''Hello'', ''Hello'']
   \<and> sorted_wrt prefix (publishedAnswers scenarioEvents)
   \<and> currentResponse (loadingState scenarioQuestion (state scenarioService)) = []
   \<and> sorted_wrt prefix
         (publishedAnswers (snd (processStream scenarioParse scenarioReader True 7 False
                                    (loadingState scenarioQuestion (state scenarioService)))))"
proof -
  have a: "publishedAnswers scenarioEvents = [[], [], ''Hel'', ''Hello'', ''Hello'']"
    by (simp add: scenario_events loadingState_def)
  have b: "currentResponse (loadingState scenarioQuestion (state scenarioService)) = []"
    by (simp add: loadingState_def)
  note c = isolated_answer_only_grows [OF scenario_run,
      of "loadingState scenarioQuestion (state scenarioService)" scenarioParse scenarioReader
         True 7 False]
  from c have "sorted_wrt prefix (publishedAnswers scenarioEvents)" by blast
  moreover from c b have "sorted_wrt prefix
         (publishedAnswers (snd (processStream scenarioParse scenarioReader True 7 False
                                    (loadingState scenarioQuestion (state scenarioService)))))"
    by blast
  ultimately show ?thesis using a b by blast
qed

text \<open>
  C5, at a submission that supersedes a streaming request. The earlier stream has
  accumulated 'Earlier'. After the new call has published its empty answer, the
  earlier stream's cleanup writes 'Earlier' into the new state and publishes it; the
  new stream then starts by publishing 'Earlier' again and goes on with 'Hel', which
  does not extend it. The published answers are not a chain of extensions, and the
  answer reset at submission time does not stay reset.
\<close>

theorem C5_superseded_stream_overwrites_answer:
  "isStreaming (state scenarioService)
   \<and> currentResponse (state scenarioService) = ''Earlier''
   \<and> publishedAnswers scenarioSupersedingEvents
       = [[], ''Earlier'', ''Earlier'', ''Hel'', ''Hello'', ''Hello'']
   \<and> \<not> prefix ''Earlier'' ''Hel''
   \<and> \<not> sorted_wrt prefix (publishedAnswers scenarioSupersedingEvents)"
  by (simp add: scenario_superseding_events loadingState_def scenarioService_def)

section \<open>The decoder on the concrete streams\<close>

lemma scenario_broken_loop:
  "readLoop scenarioParse scenarioBrokenReader []
     ((loadingState scenarioQuestion (state scenarioService))
        \<lparr>isLoading := False, isStreaming := True\<rparr>)
   = (ReadFailed (Error (Some ''terminated'')), ''Hel'',
      (loadingState scenarioQuestion (state scenarioService))
        \<lparr>isLoading := False, isStreaming := True, currentResponse := ''Hel''\<rparr>,
      [Broadcast ((loadingState scenarioQuestion (state scenarioService))
        \<lparr>isLoading := False, isStreaming := True, currentResponse := ''Hel''\<rparr>)])"
  by (simp add: scenarioBrokenReader_def scenario_eval)

theorem C7_partial_answer_witness:
  "fst (snd (readLoop scenarioParse scenarioBrokenReader []
              ((loadingState scenarioQuestion (state scenarioService))
                 \<lparr>isLoading := False, isStreaming := True\<rparr>))) = ''Hel''
   \<and> \<not> isStreaming (fst (processStream scenarioParse scenarioBrokenReader True 7 False
                            (loadingState scenarioQuestion (state scenarioService))))
   \<and> currentResponse (fst (processStream scenarioParse scenarioBrokenReader True 7 False
                               (loadingState scenarioQuestion (state scenarioService)))) = ''Hel''
   \<and> last (snd (processStream scenarioParse scenarioBrokenReader True 7 False
                   (loadingState scenarioQuestion (state scenarioService))))
       = AddAiMessage 7 Assistant ''Hel''"
proof -
  from C7_cleanup_runs_on_every_exit
      [where alive = True and sessionId = 7 and aborted = False,
       OF scenario_broken_loop, THEN conjunct1]
  obtain st' earlier where
    run: "processStream scenarioParse scenarioBrokenReader True 7 False
            (loadingState scenarioQuestion (state scenarioService))
          = (st', earlier @ Broadcast st' # [AddAiMessage 7 Assistant ''Hel''])"
    and flags: "\<not> isStreaming st'" "currentResponse st' = ''Hel''"
    by auto
  show ?thesis
    unfolding run using flags by (simp add: scenario_broken_loop)
qed

theorem C9_malformed_frame_witness:
  "scenarioParse ''{oops'' = None \<and> ''{oops'' \<noteq> ''[DONE]''
   \<and> chunkLines (''data: {\"choices\":[{\"delta\":{\"content\":\"Hel\"}}]}'' @ [CHR 0x0A, CHR 0x0A]
                  @ ''data: {oops'' @ [CHR 0x0A])
       = [''data: {\"choices\":[{\"delta\":{\"content\":\"Hel\"}}]}''] @ (''data: '' @ ''{oops'') # []
   \<and> chunkLines (''data: {\"choices\":[{\"delta\":{\"content\":\"Hel\"}}]}'' @ [CHR 0x0A])
       = [''data: {\"choices\":[{\"delta\":{\"content\":\"Hel\"}}]}''] @ []
   \<and> processStream scenarioParse
         ([] @ Value (''data: {\"choices\":[{\"delta\":{\"content\":\"Hel\"}}]}'' @ [CHR 0x0A, CHR 0x0A]
                      @ ''data: {oops'' @ [CHR 0x0A]) # tl scenarioReader)
         True 7 False (loadingState scenarioQuestion (state scenarioService))
       = processStream scenarioParse
         ([] @ Value (''data: {\"choices\":[{\"delta\":{\"content\":\"Hel\"}}]}'' @ [CHR 0x0A])
              # tl scenarioReader)
         True 7 False (loadingState scenarioQuestion (state scenarioService))"
proof -
  have h1: "scenarioParse ''{oops'' = None"
    by (simp add: scenarioParse_def)
  have h2: "''{oops'' \<noteq> ''[DONE]''"
    by simp
  have h3: "chunkLines (''data: {\"choices\":[{\"delta\":{\"content\":\"Hel\"}}]}'' @ [CHR 0x0A, CHR 0x0A]
                  @ ''data: {oops'' @ [CHR 0x0A])
       = [''data: {\"choices\":[{\"delta\":{\"content\":\"Hel\"}}]}''] @ (''data: '' @ ''{oops'') # []
   \<and> chunkLines (''data: {\"choices\":[{\"delta\":{\"content\":\"Hel\"}}]}'' @ [CHR 0x0A])
       = [''data: {\"choices\":[{\"delta\":{\"content\":\"Hel\"}}]}''] @ []"
    by (simp add: chunkLines_def trim_def isWhiteSpace_def)
  note c = C9_malformed_frame_is_skipped
      [where parse = scenarioParse and payload = "''{oops''"
         and before = "[''data: {\"choices\":[{\"delta\":{\"content\":\"Hel\"}}]}'']"
         and after = "[]"
         and c = "''data: {\"choices\":[{\"delta\":{\"content\":\"Hel\"}}]}'' @ [CHR 0x0A, CHR 0x0A]
                  @ ''data: {oops'' @ [CHR 0x0A]"
         and c' = "''data: {\"choices\":[{\"delta\":{\"content\":\"Hel\"}}]}'' @ [CHR 0x0A]"
         and earlier = "[]" and rest = "tl scenarioReader" and alive = True and sid = 7
         and aborted = False
         and st = "loadingState scenarioQuestion (state scenarioService)",
       OF h1 h2]
  from c [THEN conjunct2, THEN conjunct2, THEN mp, OF h3]
  have h4: "processStream scenarioParse
         ([] @ Value (''data: {\"choices\":[{\"delta\":{\"content\":\"Hel\"}}]}'' @ [CHR 0x0A, CHR 0x0A]
                      @ ''data: {oops'' @ [CHR 0x0A]) # tl scenarioReader)
         True 7 False (loadingState scenarioQuestion (state scenarioService))
       = processStream scenarioParse
         ([] @ Value (''data: {\"choices\":[{\"delta\":{\"content\":\"Hel\"}}]}'' @ [CHR 0x0A])
              # tl scenarioReader)
         True 7 False (loadingState scenarioQuestion (state scenarioService))" .
  show ?thesis
    by (intro conjI h1 h2 h3 [THEN conjunct1] h3 [THEN conjunct2] h4)
qed

end
